theory Spec2Isabelle
  imports Main "HOL-Library.Sublist" "HOL-Library.Word"
begin

section \<open>Strings, bytes and numbers of the host language\<close>

text \<open>
  The mailbox engine is the class \<open>ImapService\<close>. Its strings are JavaScript strings,
  sequences of UTF-16 code units. The strings the engine inspects (identifiers, file
  names, MIME types, mailbox names) are modelled as HOL strings, one \<open>char\<close> per code
  unit, which covers the code units below 256 (Basic Latin and Latin-1). Inside that
  range \<open>trim\<close>, \<open>toLowerCase\<close> and \<open>parseInt\<close> are written out exactly. A \<open>Buffer\<close> is a
  list of bytes. The text that \<open>content.toString('utf8')\<close> decodes from a buffer may hold
  any code unit, so it is kept as a list of code units (\<open>utf16\<close>), each an integer below
  \<open>2^16\<close>; its \<open>length\<close> is the number of code units.
\<close>

type_synonym bytes = "8 word list"

type_synonym utf16 = "int list"

text \<open>White space as \<open>String.prototype.trim\<close> and \<open>parseInt\<close> strip it: TAB, LF, VT, FF, CR,
  SPACE and NBSP are the white-space and line-terminator code units below 256.\<close>

definition isStrWhiteSpaceChar :: "char \<Rightarrow> bool" where
  "isStrWhiteSpaceChar c \<longleftrightarrow> (of_char c :: nat) \<in> {9, 10, 11, 12, 13, 32, 160}"

definition trim :: "string \<Rightarrow> string" where
  "trim s = rev (dropWhile isStrWhiteSpaceChar (rev (dropWhile isStrWhiteSpaceChar s)))"

text \<open>\<open>toLowerCase\<close> on code units below 256: A to Z, and the Latin-1 capitals U+00C0 to
  U+00DE except the multiplication sign U+00D7, move up by 32.\<close>

definition lower_char :: "char \<Rightarrow> char" where
  "lower_char c =
     (let n = (of_char c :: nat)
      in if (65 \<le> n \<and> n \<le> 90) \<or> (192 \<le> n \<and> n \<le> 222 \<and> n \<noteq> 215) then char_of (n + 32) else c)"

definition toLowerCase :: "string \<Rightarrow> string" where
  "toLowerCase s = map lower_char s"

definition startsWith :: "string \<Rightarrow> string \<Rightarrow> bool" where
  "startsWith s p \<longleftrightarrow> prefix p s"

definition endsWith :: "string \<Rightarrow> string \<Rightarrow> bool" where
  "endsWith s p \<longleftrightarrow> suffix p s"

definition includes_str :: "string \<Rightarrow> string \<Rightarrow> bool" where
  "includes_str s p \<longleftrightarrow> sublist p s"

text \<open>\<open>s.slice(1, -1)\<close> and \<open>s.slice(0, -2)\<close>.\<close>

definition slice_1_m1 :: "string \<Rightarrow> string" where
  "slice_1_m1 s = butlast (tl s)"

definition slice_0_m2 :: "string \<Rightarrow> string" where
  "slice_0_m2 s = take (length s - 2) s"

text \<open>\<open>a || b\<close> and \<open>a || undefined\<close> on an optional string: the empty string is falsy.\<close>

definition or_else :: "string option \<Rightarrow> string \<Rightarrow> string" where
  "or_else a b = (case a of None \<Rightarrow> b | Some s \<Rightarrow> if s = [] then b else s)"

definition or_undefined :: "string option \<Rightarrow> string option" where
  "or_undefined a = (case a of None \<Rightarrow> None | Some s \<Rightarrow> if s = [] then None else Some s)"

subsection \<open>Numbers\<close>

text \<open>
  The value of \<open>Number.parseInt(id, 10)\<close>: leading white space is skipped, one sign is
  read, and the longest run of decimal digits that follows is the value; with no digit
  the result is NaN. A value of magnitude \<open>2^1024 - 2^970\<close> or more rounds to an infinity.
  \<open>Finite\<close> carries the integer the digits denote; the rounding of integers beyond
  \<open>2^53\<close> to the nearest double is not modelled.
\<close>

datatype number = NaN | PosInfinity | NegInfinity | Finite int

definition isDigit :: "char \<Rightarrow> bool" where
  "isDigit c \<longleftrightarrow> 48 \<le> (of_char c :: nat) \<and> (of_char c :: nat) \<le> 57"

definition digits_value :: "string \<Rightarrow> int" where
  "digits_value ds = foldl (\<lambda>acc c. 10 * acc + (of_char c - 48)) 0 ds"

definition parseInt10 :: "string \<Rightarrow> number" where
  "parseInt10 s =
     (let t = dropWhile isStrWhiteSpaceChar s;
          neg = (case t of [] \<Rightarrow> False | c # _ \<Rightarrow> c = CHR ''-'');
          u = (case t of [] \<Rightarrow> t | c # r \<Rightarrow> if c = CHR ''+'' \<or> c = CHR ''-'' then r else t);
          z = takeWhile isDigit u
      in if z = [] then NaN
         else if 2 ^ 1024 - 2 ^ 970 \<le> digits_value z
           then (if neg then NegInfinity else PosInfinity)
         else Finite (if neg then - digits_value z else digits_value z))"

text \<open>\<open>Number.isFinite(parsed) && parsed > 0 ? parsed : null\<close>, the handle of a \<open>uid\<close>
  identifier in both batch operations.\<close>

definition positive_or_null :: "number \<Rightarrow> nat option" where
  "positive_or_null parsed =
     (case parsed of Finite v \<Rightarrow> if 0 < v then Some (nat v) else None | _ \<Rightarrow> None)"

text \<open>\<open>if (!uid)\<close> on \<open>number | null\<close>: null and zero are falsy.\<close>

definition truthy_uid :: "nat option \<Rightarrow> nat option" where
  "truthy_uid u = (case u of None \<Rightarrow> None | Some n \<Rightarrow> if n = 0 then None else Some n)"

text \<open>\<open>uid.toString()\<close> of a handle, in decimal.\<close>

definition digit_char :: "nat \<Rightarrow> char" where
  "digit_char d = char_of (48 + d)"

function string_of_nat :: "nat \<Rightarrow> string" where
  "string_of_nat n =
     (if n < 10 then [digit_char n] else string_of_nat (n div 10) @ [digit_char (n mod 10)])"
  by pat_completeness auto
termination
  by (relation "measure (\<lambda>n. n)") auto

declare string_of_nat.simps [simp del]

text \<open>Lower-case hexadecimal of a buffer, \<open>buf.toString('hex')\<close>.\<close>

definition hex_digit :: "nat \<Rightarrow> char" where
  "hex_digit d = (if d < 10 then char_of (48 + d) else char_of (87 + d))"

definition toString_hex :: "bytes \<Rightarrow> string" where
  "toString_hex bs = concat (map (\<lambda>b. [hex_digit (unat b div 16), hex_digit (unat b mod 16)]) bs)"

text \<open>UTF-8 of a string of code units below 256, the encoding \<open>Buffer.from(string)\<close> applies:
  one byte below 128, two bytes from 128 on.\<close>

definition utf8_encode :: "string \<Rightarrow> bytes" where
  "utf8_encode s =
     concat (map (\<lambda>c. let n = (of_char c :: nat)
                      in if n < 128 then [of_nat n]
                         else [of_nat (192 + n div 64), of_nat (128 + n mod 64)]) s)"

subsection \<open>Text decoded from a buffer\<close>

text \<open>
  \<open>buf.toString('utf8')\<close> decodes the bytes as UTF-8 into code points and stores each code
  point as UTF-16: one code unit below \<open>U+10000\<close>, a surrogate pair from there on. The
  decoder replaces every ill-formed sequence (its maximal well-formed prefix, or a single
  byte) by \<open>U+FFFD\<close> and reads on at the byte that broke the sequence; a byte order mark
  is kept. \<open>lead_byte\<close> is the step on a byte outside a sequence: what it emits, the
  number of continuation bytes it needs, the bits of the code point it brings, and the
  range allowed for the next byte. \<open>utf8_decode\<close> carries these four through the bytes.
\<close>

definition lead_byte :: "int \<Rightarrow> int list \<times> nat \<times> int \<times> int \<times> int" where
  "lead_byte b =
     (if b \<le> 0x7F then ([b], 0, 0, 0x80, 0xBF)
      else if 0xC2 \<le> b \<and> b \<le> 0xDF then ([], 1, b mod 32, 0x80, 0xBF)
      else if 0xE0 \<le> b \<and> b \<le> 0xEF
        then ([], 2, b mod 16, if b = 0xE0 then 0xA0 else 0x80, if b = 0xED then 0x9F else 0xBF)
      else if 0xF0 \<le> b \<and> b \<le> 0xF4
        then ([], 3, b mod 8, if b = 0xF0 then 0x90 else 0x80, if b = 0xF4 then 0x8F else 0xBF)
      else ([0xFFFD], 0, 0, 0x80, 0xBF))"

fun utf8_decode :: "nat \<Rightarrow> int \<Rightarrow> int \<Rightarrow> int \<Rightarrow> int list \<Rightarrow> int list" where
  "utf8_decode needed cp lo hi [] = (if needed = 0 then [] else [0xFFFD])"
| "utf8_decode needed cp lo hi (b # bs) =
     (if needed = 0 then
        (case lead_byte b of (out, n, c, l, u) \<Rightarrow> out @ utf8_decode n c l u bs)
      else if \<not> (lo \<le> b \<and> b \<le> hi) then
        (case lead_byte b of (out, n, c, l, u) \<Rightarrow> 0xFFFD # out @ utf8_decode n c l u bs)
      else if needed = 1 then (cp * 64 + b mod 64) # utf8_decode 0 0 0x80 0xBF bs
      else utf8_decode (needed - 1) (cp * 64 + b mod 64) 0x80 0xBF bs)"

definition code_points :: "bytes \<Rightarrow> int list" where
  "code_points raw = utf8_decode 0 0 0x80 0xBF (map uint raw)"

definition utf16_units :: "int \<Rightarrow> utf16" where
  "utf16_units cp =
     (if cp < 0x10000 then [cp]
      else [0xD800 + (cp - 0x10000) div 0x400, 0xDC00 + (cp - 0x10000) mod 0x400])"

definition toString_utf8 :: "bytes \<Rightarrow> utf16" where
  "toString_utf8 raw = concat (map utf16_units (code_points raw))"

section \<open>Identifier resolution: candidates of a Message-ID\<close>

definition buildMessageIdCandidates :: "string \<Rightarrow> string list" where
  "buildMessageIdCandidates messageId =
     (let trimmed = trim messageId
      in if trimmed = [] then []
         else if startsWith trimmed ''<'' \<and> endsWith trimmed ''>''
           then (let stripped = slice_1_m1 trimmed
                 in if stripped \<noteq> [] then [trimmed, stripped] else [trimmed])
         else [''<'' @ trimmed @ ''>'', trimmed])"

section \<open>The world outside the engine\<close>

text \<open>
  Every exchange with a collaborator (the IMAP connection, the regular-expression
  object, the random generator, the file system) is a \<open>call\<close>. The engine threads the
  history of calls made so far, oldest first; the answer of a collaborator is a function
  of the history up to and including the call it answers, so the same call may be
  answered differently at different times (a mailbox changes, a regular expression with
  the \<open>g\<close> flag keeps its \<open>lastIndex\<close>).
\<close>

datatype exn = Error string | NonError

text \<open>\<open>error instanceof Error ? error.message : 'Unknown error'\<close>\<close>

definition message_of :: "exn \<Rightarrow> string" where
  "message_of e = (case e of Error m \<Rightarrow> m | NonError \<Rightarrow> ''Unknown error'')"

datatype call =
    Connect
  | OpenBox string bool
  | Search string string
  | Fetch nat string bool bool
  | EndConnection
  | RegExpTest string string string
  | RandomBytes nat
  | WriteFile string bytes

text \<open>
  \<open>OpenBox mailbox readOnly\<close> is \<open>imap.openBox(mailbox, readOnly, cb)\<close>;
  \<open>Search header value\<close> is \<open>imap.search([['HEADER', header, value]], cb)\<close>;
  \<open>Fetch uid bodies struct markSeen\<close> is \<open>imap.fetch([uid], {bodies, struct, markSeen})\<close>;
  \<open>EndConnection\<close> is \<open>imap.end()\<close>; \<open>RegExpTest source flags input\<close> is \<open>regex.test(input)\<close>
  on the expression built from \<open>source\<close> and \<open>flags\<close>; \<open>RandomBytes n\<close> is
  \<open>randomBytes(n)\<close>; \<open>WriteFile path content\<close> is \<open>fs.writeFile(path, content)\<close>.
\<close>

text \<open>A chunk of a body stream: a \<open>Buffer\<close>, a typed array of bytes that is not a
  \<open>Buffer\<close>, or a string (a stream that was given an encoding).\<close>

datatype chunk = Buf bytes | U8 bytes | Str string

text \<open>The events of one fetch, in the order of delivery.\<close>

datatype fetch_event = MessageEv | DataEv chunk | ErrorEv exn | EndEv

text \<open>A promise: still pending, rejected with a thrown value, or resolved.\<close>

datatype 'a outcome = Pending | Rejected exn | Resolved 'a

text \<open>The attachment entries and the decoded message of the MIME decoder
  (\<open>simpleParser\<close>), with the fields the engine reads.\<close>

record attachment =
  a_filename :: "string option"
  a_contentType :: "string option"
  a_content :: bytes
  a_size :: "nat option"
  a_contentDisposition :: "string option"
  a_cid :: "string option"

datatype address_field = NoAddress | OneAddress string | ManyAddresses "string list"

datatype js_date = ValidDate string | InvalidDate

record parsed_mail =
  m_attachments :: "attachment list"
  m_subject :: "string option"
  m_from :: address_field
  m_to :: address_field
  m_date :: "js_date option"
  m_messageId :: "string option"
  m_html :: "string option"
  m_text :: "string option"
  m_textAsHtml :: "string option"

text \<open>
  The environment: the answers of the collaborators. \<open>on_connect\<close> answers
  \<open>imap.connect()\<close> with the \<open>ready\<close> event (\<open>None\<close>) or the \<open>error\<close> event;
  \<open>on_openBox\<close>, \<open>on_search\<close> and \<open>on_writeFile\<close> answer with the error or the result of
  the callback (a search may pass no result list); \<open>on_fetch\<close> is the list of events the
  fetch emits; \<open>on_test\<close> is the result of \<open>regex.test\<close>; \<open>on_randomBytes\<close> the bytes drawn.
  \<open>regexp_error\<close> is the error \<open>new RegExp(source, flags)\<close> throws, if any. The MIME
  decoder \<open>simpleParser\<close>, \<open>os.tmpdir()\<close> and \<open>path.join\<close> are functions of their
  arguments. So is \<open>htmlToText\<close>, the method of the class that strips
  markup from a body by a chain of regular-expression replacements; it only shapes the
  text body that \<open>getMessageContent\<close> returns and is kept as a parameter.
\<close>

record env =
  on_connect :: "call list \<Rightarrow> exn option"
  on_openBox :: "call list \<Rightarrow> exn option"
  on_search :: "call list \<Rightarrow> exn + nat list option"
  on_fetch :: "call list \<Rightarrow> fetch_event list"
  on_test :: "call list \<Rightarrow> bool"
  on_randomBytes :: "call list \<Rightarrow> bytes"
  on_writeFile :: "call list \<Rightarrow> exn option"
  regexp_error :: "string \<Rightarrow> string \<Rightarrow> exn option"
  simpleParser :: "bytes \<Rightarrow> exn + parsed_mail"
  tmpdir :: string
  join :: "string \<Rightarrow> string \<Rightarrow> string"
  htmlToText :: "string \<Rightarrow> string"

type_synonym 'a io = "'a outcome \<times> call list"

text \<open>\<open>await\<close>: continue with the value of a resolved promise; a rejection is thrown on;
  a promise that stays pending never resumes the caller.\<close>

definition await :: "'a io \<Rightarrow> ('a \<Rightarrow> call list \<Rightarrow> 'b io) \<Rightarrow> 'b io" where
  "await r k =
     (case r of
        (Resolved x, h) \<Rightarrow> k x h
      | (Rejected e, h) \<Rightarrow> (Rejected e, h)
      | (Pending, h) \<Rightarrow> (Pending, h))"

section \<open>Raw message retrieval\<close>

text \<open>\<open>Buffer.isBuffer(chunk) ? chunk : Buffer.from(chunk)\<close>: a buffer is taken as it is, a
  typed array is copied, and a string is encoded as UTF-8.\<close>

definition coerce_chunk :: "chunk \<Rightarrow> bytes" where
  "coerce_chunk c = (case c of Buf b \<Rightarrow> b | U8 b \<Rightarrow> b | Str s \<Rightarrow> utf8_encode s)"

text \<open>
  The state of the handlers of \<open>fetchRawByUid\<close>: the chunks pushed, the \<open>found\<close> flag,
  the promise, and whether the \<open>once\<close> handlers of \<open>error\<close> and \<open>end\<close> are still registered.
  The \<open>data\<close> handler is registered by the \<open>message\<close> handler, so data is heard only
  after a message was announced. A promise settles once: \<open>settle\<close> keeps the first result.
\<close>

record fetch_state =
  chunks :: "bytes list"
  found :: bool
  promise :: "bytes outcome"
  error_armed :: bool
  end_armed :: bool

definition settle :: "'a outcome \<Rightarrow> 'a outcome \<Rightarrow> 'a outcome" where
  "settle cur new = (case cur of Pending \<Rightarrow> new | _ \<Rightarrow> cur)"

definition fetch_handler :: "nat \<Rightarrow> fetch_state \<Rightarrow> fetch_event \<Rightarrow> fetch_state" where
  "fetch_handler uid s ev =
     (case ev of
        MessageEv \<Rightarrow> s\<lparr>found := True\<rparr>
      | DataEv c \<Rightarrow> if found s then s\<lparr>chunks := chunks s @ [coerce_chunk c]\<rparr> else s
      | ErrorEv err \<Rightarrow>
          if error_armed s
          then s\<lparr>error_armed := False, promise := settle (promise s) (Rejected err)\<rparr>
          else s
      | EndEv \<Rightarrow>
          if end_armed s
          then s\<lparr>end_armed := False,
                 promise := settle (promise s)
                   (if \<not> found s
                    then Rejected (Error (''Message not found for UID: '' @ string_of_nat uid))
                    else Resolved (concat (chunks s)))\<rparr>
          else s)"

definition fetch_init :: fetch_state where
  "fetch_init = \<lparr>chunks = [], found = False, promise = Pending,
     error_armed = True, end_armed = True\<rparr>"

definition fetchRawByUid :: "env \<Rightarrow> nat \<Rightarrow> call list \<Rightarrow> bytes io" where
  "fetchRawByUid E uid h =
     (let h1 = h @ [Fetch uid [] False False]
      in (promise (foldl (fetch_handler uid) fetch_init (on_fetch E h1)), h1))"

section \<open>Identifier resolution against the store\<close>

definition searchUidsByHeader :: "env \<Rightarrow> string \<Rightarrow> string \<Rightarrow> call list \<Rightarrow> (nat list) io" where
  "searchUidsByHeader E header v h =
     (let h1 = h @ [Search header v]
      in case on_search E h1 of
           Inl err \<Rightarrow> (Rejected err, h1)
         | Inr results \<Rightarrow> (Resolved (case results of None \<Rightarrow> [] | Some r \<Rightarrow> r), h1))"

text \<open>The loop of \<open>resolveUidForMessageId\<close> over the candidates.\<close>

fun search_candidates :: "env \<Rightarrow> string list \<Rightarrow> call list \<Rightarrow> (nat option) io" where
  "search_candidates E [] h = (Resolved None, h)"
| "search_candidates E (candidate # rest) h =
     (case searchUidsByHeader E ''MESSAGE-ID'' candidate h of
        (Resolved results, h1) \<Rightarrow>
          (case results of
             r # _ \<Rightarrow> (Resolved (Some r), h1)
           | [] \<Rightarrow> search_candidates E rest h1)
      | (Rejected e, h1) \<Rightarrow> (Rejected e, h1)
      | (Pending, h1) \<Rightarrow> (Pending, h1))"

definition resolveUidForMessageId :: "env \<Rightarrow> string \<Rightarrow> call list \<Rightarrow> (nat option) io" where
  "resolveUidForMessageId E messageId h =
     search_candidates E (buildMessageIdCandidates messageId) h"

section \<open>Attachment classification\<close>

record attachment_filter =
  f_name :: "string option"
  f_nameContains :: "string option"
  f_nameRegex :: "string option"
  f_nameRegexFlags :: "string option"
  f_mimeTypes :: "string list option"

text \<open>What the predicate returned by \<open>buildAttachmentPredicate\<close> closes over: the compiled
  expression (its source and flags) or null, and the lower-cased constraints.\<close>

record predicate_closure =
  nameRegex :: "(string \<times> string) option"
  normalizedName :: "string option"
  normalizedContains :: "string option"
  normalizedMimeTypes :: "string list"

text \<open>With no filter the predicate is \<open>() => true\<close>, here \<open>None\<close>. A pattern that does not
  compile throws before anything else is done.\<close>

definition compile_nameRegex :: "env \<Rightarrow> attachment_filter \<Rightarrow> exn + (string \<times> string) option" where
  "compile_nameRegex E f =
     (case or_undefined (f_nameRegex f) of
        None \<Rightarrow> Inr None
      | Some src \<Rightarrow>
          (let flags = or_else (f_nameRegexFlags f) []
           in case regexp_error E src flags of
                Some err \<Rightarrow>
                  Inl (Error (''Invalid nameRegex: '' @
                    (case err of Error m \<Rightarrow> m | NonError \<Rightarrow> ''unknown error'')))
              | None \<Rightarrow> Inr (Some (src, flags))))"

definition buildAttachmentPredicate ::
    "env \<Rightarrow> attachment_filter option \<Rightarrow> exn + predicate_closure option" where
  "buildAttachmentPredicate E flt =
     (case flt of
        None \<Rightarrow> Inr None
      | Some f \<Rightarrow>
          (case compile_nameRegex E f of
             Inl e \<Rightarrow> Inl e
           | Inr rx \<Rightarrow>
               Inr (Some \<lparr>nameRegex = rx,
                          normalizedName = map_option toLowerCase (f_name f),
                          normalizedContains = map_option toLowerCase (f_nameContains f),
                          normalizedMimeTypes =
                            (case f_mimeTypes f of None \<Rightarrow> [] | Some ms \<Rightarrow> map toLowerCase ms)\<rparr>)))"

definition mime_matches :: "string \<Rightarrow> string \<Rightarrow> bool" where
  "mime_matches ctype mime =
     (if endsWith mime ''/*'' then startsWith ctype (slice_0_m2 mime) else ctype = mime)"

text \<open>The file-name checks, in the order of the source; each \<open>return false\<close> ends the
  predicate, so the expression is tested only when the checks before it passed.\<close>

definition filename_checks :: "env \<Rightarrow> predicate_closure \<Rightarrow> attachment \<Rightarrow> call list \<Rightarrow> bool \<times> call list" where
  "filename_checks E c a h =
     (let fname = or_else (a_filename a) [];
          lowerFilename = toLowerCase fname
      in if (case or_undefined (normalizedName c) of
               Some n \<Rightarrow> lowerFilename \<noteq> n | None \<Rightarrow> False) then (False, h)
         else if (case or_undefined (normalizedContains c) of
               Some n \<Rightarrow> \<not> includes_str lowerFilename n | None \<Rightarrow> False) then (False, h)
         else (case nameRegex c of
                 None \<Rightarrow> (True, h)
               | Some (src, flags) \<Rightarrow>
                   (let h1 = h @ [RegExpTest src flags fname] in (on_test E h1, h1))))"

definition mime_checks :: "predicate_closure \<Rightarrow> attachment \<Rightarrow> bool" where
  "mime_checks c a =
     (if normalizedMimeTypes c \<noteq> []
      then (let ctype = or_else (map_option toLowerCase (a_contentType a)) []
            in list_ex (mime_matches ctype) (normalizedMimeTypes c))
      else True)"

definition attachment_predicate ::
    "env \<Rightarrow> predicate_closure option \<Rightarrow> attachment \<Rightarrow> call list \<Rightarrow> bool \<times> call list" where
  "attachment_predicate E p a h =
     (case p of
        None \<Rightarrow> (True, h)
      | Some c \<Rightarrow>
          (case (if or_undefined (normalizedName c) \<noteq> None
                    \<or> or_undefined (normalizedContains c) \<noteq> None \<or> nameRegex c \<noteq> None
                 then filename_checks E c a h else (True, h)) of
             (False, h1) \<Rightarrow> (False, h1)
           | (True, h1) \<Rightarrow> (mime_checks c a, h1)))"

text \<open>\<open>attachments.filter(predicate)\<close>: the predicate is applied to each entry in order.\<close>

fun filter_attachments ::
    "env \<Rightarrow> predicate_closure option \<Rightarrow> attachment list \<Rightarrow> call list \<Rightarrow> attachment list \<times> call list" where
  "filter_attachments E p [] h = ([], h)"
| "filter_attachments E p (a # rest) h =
     (case attachment_predicate E p a h of
        (keep, h1) \<Rightarrow>
          (case filter_attachments E p rest h1 of
             (kept, h2) \<Rightarrow> (if keep then a # kept else kept, h2)))"

section \<open>Placement: inline or materialized\<close>

definition shouldInlineTextAttachment :: "string \<Rightarrow> bytes \<Rightarrow> bool" where
  "shouldInlineTextAttachment ctype content =
     (let normalized = toLowerCase ctype;
          isText = startsWith normalized ''text/'';
          isMarkdown = startsWith normalized ''text/markdown''
            \<or> startsWith normalized ''text/x-markdown'' \<or> startsWith normalized ''text/md'';
          isOtherInline = normalized = ''application/json''
            \<or> normalized = ''application/xml''
            \<or> normalized = ''text/xml''
            \<or> normalized = ''application/yaml''
            \<or> normalized = ''application/x-yaml''
      in if \<not> isText \<and> \<not> isMarkdown \<and> \<not> isOtherInline then False
         else length (toString_utf8 content) < 1000)"

text \<open>\<open>filename.replace(/[\\\/]/g, '_')\<close>\<close>

definition replace_separators :: "string \<Rightarrow> string" where
  "replace_separators s = map (\<lambda>c. if c = CHR 0x5C \<or> c = CHR ''/'' then CHR ''_'' else c) s"

definition writeAttachmentToTemp ::
    "env \<Rightarrow> bytes \<Rightarrow> string \<Rightarrow> string \<Rightarrow> call list \<Rightarrow> string io" where
  "writeAttachmentToTemp E content fname uid_str h =
     (let h1 = h @ [RandomBytes 6];
          token = toString_hex (on_randomBytes E h1);
          safeName = or_else (Some (replace_separators fname))
                       (''attachment-'' @ uid_str @ ''-'' @ token);
          filePath = join E (tmpdir E) (token @ ''-'' @ safeName);
          h2 = h1 @ [WriteFile filePath content]
      in case on_writeFile E h2 of
           Some err \<Rightarrow> (Rejected err, h2)
         | None \<Rightarrow> (Resolved filePath, h2))"

record attachment_meta =
  t_filename :: "string option"
  t_contentType :: string
  t_size :: nat
  t_contentDisposition :: "string option"
  t_contentId :: "string option"

record attachment_result = attachment_meta +
  t_savedTo :: "string option"
  t_inlineContent :: "utf16 option"

text \<open>The body of the loop over the matching attachments of one message.\<close>

definition place_attachment :: "env \<Rightarrow> nat \<Rightarrow> attachment \<Rightarrow> call list \<Rightarrow> attachment_result io" where
  "place_attachment E u a h =
     (let content = a_content a;
          ctype = or_else (a_contentType a) ''application/octet-stream'';
          sz = (case a_size a of Some n \<Rightarrow> n | None \<Rightarrow> length content);
          effectiveName = or_else (a_filename a) (''attachment-'' @ string_of_nat u)
      in if shouldInlineTextAttachment ctype content
         then (Resolved \<lparr>t_filename = Some effectiveName, t_contentType = ctype, t_size = sz,
                 t_contentDisposition = or_undefined (a_contentDisposition a),
                 t_contentId = or_undefined (a_cid a),
                 t_savedTo = None,
                 t_inlineContent = Some (toString_utf8 content)\<rparr>, h)
         else await (writeAttachmentToTemp E content effectiveName (string_of_nat u) h)
                (\<lambda>savedTo h1.
                   (Resolved \<lparr>t_filename = Some effectiveName, t_contentType = ctype, t_size = sz,
                      t_contentDisposition = or_undefined (a_contentDisposition a),
                      t_contentId = or_undefined (a_cid a),
                      t_savedTo = Some savedTo,
                      t_inlineContent = None\<rparr>, h1)))"

fun place_attachments ::
    "env \<Rightarrow> nat \<Rightarrow> attachment list \<Rightarrow> attachment_result list \<Rightarrow> call list
      \<Rightarrow> (attachment_result list) io" where
  "place_attachments E u [] processed h = (Resolved processed, h)"
| "place_attachments E u (a # rest) processed h =
     (case place_attachment E u a h of
        (Resolved r, h1) \<Rightarrow> place_attachments E u rest (processed @ [r]) h1
      | (Rejected e, h1) \<Rightarrow> (Rejected e, h1)
      | (Pending, h1) \<Rightarrow> (Pending, h1))"

section \<open>The batch operations\<close>

datatype id_type = MessageIdType | UidType

datatype ids_argument = OneId string | ManyIds "string list"

definition normalizeMessageIds :: "ids_argument \<Rightarrow> string list" where
  "normalizeMessageIds messageIds = (case messageIds of ManyIds xs \<Rightarrow> xs | OneId x \<Rightarrow> [x])"

record result_head =
  r_id :: string
  r_idType :: id_type
  r_mailbox :: string
  r_found :: bool
  r_uid :: "string option"
  r_error :: "string option"

record attachments_result = result_head +
  r_attachments :: "attachment_result list"

text \<open>The handle of one identifier: parsed from a \<open>uid\<close> identifier, searched for a
  \<open>message-id\<close> identifier.\<close>

definition resolve_identifier :: "env \<Rightarrow> id_type \<Rightarrow> string \<Rightarrow> call list \<Rightarrow> (nat option) io" where
  "resolve_identifier E idType ident h =
     (if idType = UidType then (Resolved (positive_or_null (parseInt10 ident)), h)
      else resolveUidForMessageId E ident h)"

text \<open>The body of the \<open>try\<close> block of \<open>downloadAttachments\<close> for one identifier.\<close>

definition download_try ::
    "env \<Rightarrow> predicate_closure option \<Rightarrow> id_type \<Rightarrow> string \<Rightarrow> string \<Rightarrow> call list
      \<Rightarrow> attachments_result io" where
  "download_try E p idType mb ident h =
     await (resolve_identifier E idType ident h)
       (\<lambda>uid0 h1.
          case truthy_uid uid0 of
            None \<Rightarrow>
              (Resolved \<lparr>r_id = ident, r_idType = idType, r_mailbox = mb, r_found = False,
                 r_uid = None, r_error = None, r_attachments = []\<rparr>, h1)
          | Some u \<Rightarrow>
              await (fetchRawByUid E u h1)
                (\<lambda>rawBuffer h2.
                   case simpleParser E rawBuffer of
                     Inl e \<Rightarrow> (Rejected e, h2)
                   | Inr parsedMail \<Rightarrow>
                       (case filter_attachments E p (m_attachments parsedMail) h2 of
                          (matching, h3) \<Rightarrow>
                            await (place_attachments E u matching [] h3)
                              (\<lambda>processed h4.
                                 (Resolved \<lparr>r_id = ident, r_idType = idType, r_mailbox = mb,
                                    r_found = True, r_uid = Some (string_of_nat u),
                                    r_error = None, r_attachments = processed\<rparr>, h4)))))"

text \<open>The \<open>try\<close> with its \<open>catch\<close>: a rejection becomes the record of a failure.\<close>

definition download_entry ::
    "env \<Rightarrow> predicate_closure option \<Rightarrow> id_type \<Rightarrow> string \<Rightarrow> string \<Rightarrow> call list
      \<Rightarrow> attachments_result io" where
  "download_entry E p idType mb ident h =
     (case download_try E p idType mb ident h of
        (Rejected e, h1) \<Rightarrow>
          (Resolved \<lparr>r_id = ident, r_idType = idType, r_mailbox = mb, r_found = False,
             r_uid = None, r_error = Some (message_of e), r_attachments = []\<rparr>, h1)
      | other \<Rightarrow> other)"

text \<open>\<open>run\<close>: the loop over the identifiers, pushing one record per turn.\<close>

fun run_download ::
    "env \<Rightarrow> predicate_closure option \<Rightarrow> id_type \<Rightarrow> string \<Rightarrow> string list
      \<Rightarrow> attachments_result list \<Rightarrow> call list \<Rightarrow> (attachments_result list) io" where
  "run_download E p idType mb [] results h = (Resolved results, h)"
| "run_download E p idType mb (ident # rest) results h =
     (case download_entry E p idType mb ident h of
        (Resolved r, h1) \<Rightarrow> run_download E p idType mb rest (results @ [r]) h1
      | (Rejected e, h1) \<Rightarrow> (Rejected e, h1)
      | (Pending, h1) \<Rightarrow> (Pending, h1))"

text \<open>
  The session around \<open>run\<close>, which \<open>downloadAttachments\<close> and \<open>peekMessages\<close> both spell
  out: connect, open the mailbox read-only, run, and end the connection in the \<open>then\<close> and
  in the \<open>catch\<close> of \<open>run()\<close>. An error event of the connection in place of \<open>ready\<close>, or
  an error of \<open>openBox\<close>, rejects at once. An error event of the connection that arrives
  after \<open>ready\<close> is not modelled.
\<close>

definition with_session ::
    "env \<Rightarrow> string \<Rightarrow> (call list \<Rightarrow> 'a io) \<Rightarrow> call list \<Rightarrow> 'a io" where
  "with_session E mb run h =
     (let h1 = h @ [Connect]
      in case on_connect E h1 of
           Some err \<Rightarrow> (Rejected err, h1)
         | None \<Rightarrow>
             (let h2 = h1 @ [OpenBox mb True]
              in case on_openBox E h2 of
                   Some err \<Rightarrow> (Rejected err, h2)
                 | None \<Rightarrow>
                     (case run h2 of
                        (Resolved results, h3) \<Rightarrow> (Resolved results, h3 @ [EndConnection])
                      | (Rejected runError, h3) \<Rightarrow> (Rejected runError, h3 @ [EndConnection])
                      | (Pending, h3) \<Rightarrow> (Pending, h3))))"

definition downloadAttachments ::
    "env \<Rightarrow> ids_argument \<Rightarrow> id_type \<Rightarrow> attachment_filter option \<Rightarrow> string \<Rightarrow> call list
      \<Rightarrow> (attachments_result list) io" where
  "downloadAttachments E messageIds idType flt mb h =
     (let ids = normalizeMessageIds messageIds
      in case buildAttachmentPredicate E flt of
           Inl e \<Rightarrow> (Rejected e, h)
         | Inr p \<Rightarrow> with_session E mb (run_download E p idType mb ids []) h)"

subsection \<open>Peek\<close>

record peek_result = result_head +
  p_subject :: "string option"
  p_from :: "string option"
  p_to :: "string option"
  p_date :: "string option"
  p_messageId :: "string option"
  p_hasHtml :: "bool option"
  p_hasText :: "bool option"
  p_htmlSize :: "nat option"
  p_textSize :: "nat option"
  p_attachmentCount :: nat
  p_attachments :: "attachment_meta list"

text \<open>\<open>attachments.map((attachment, index) => ...)\<close>; \<open>i\<close> is the index of the first entry.\<close>

fun attachment_metas :: "nat \<Rightarrow> nat \<Rightarrow> attachment list \<Rightarrow> attachment_meta list" where
  "attachment_metas u i [] = []"
| "attachment_metas u i (a # rest) =
     \<lparr>t_filename = Some (or_else (a_filename a)
          (''attachment-'' @ string_of_nat u @ ''-'' @ string_of_nat (i + 1))),
      t_contentType = or_else (a_contentType a) ''application/octet-stream'',
      t_size = (case a_size a of Some n \<Rightarrow> n | None \<Rightarrow> length (a_content a)),
      t_contentDisposition = or_undefined (a_contentDisposition a),
      t_contentId = or_undefined (a_cid a)\<rparr> # attachment_metas u (i + 1) rest"

fun join_comma :: "string list \<Rightarrow> string" where
  "join_comma [] = []"
| "join_comma [x] = x"
| "join_comma (x # y # rest) = x @ '', '' @ join_comma (y # rest)"

definition formatAddress :: "address_field \<Rightarrow> string option" where
  "formatAddress addr =
     (case addr of
        NoAddress \<Rightarrow> None
      | ManyAddresses entries \<Rightarrow>
          (let parts = filter (\<lambda>t. t \<noteq> []) entries
           in if parts \<noteq> [] then Some (join_comma parts) else None)
      | OneAddress t \<Rightarrow> or_undefined (Some t))"

text \<open>\<open>date.toISOString()\<close> throws a \<open>RangeError\<close> on an invalid date.\<close>

definition toISOString :: "js_date \<Rightarrow> exn + string" where
  "toISOString d =
     (case d of ValidDate t \<Rightarrow> Inr t | InvalidDate \<Rightarrow> Inl (Error ''Invalid time value''))"

definition peek_try ::
    "env \<Rightarrow> id_type \<Rightarrow> string \<Rightarrow> string \<Rightarrow> call list \<Rightarrow> peek_result io" where
  "peek_try E idType mb ident h =
     await (resolve_identifier E idType ident h)
       (\<lambda>uid0 h1.
          case truthy_uid uid0 of
            None \<Rightarrow>
              (Resolved \<lparr>r_id = ident, r_idType = idType, r_mailbox = mb, r_found = False,
                 r_uid = None, r_error = None,
                 p_subject = None, p_from = None, p_to = None, p_date = None,
                 p_messageId = None, p_hasHtml = None, p_hasText = None,
                 p_htmlSize = None, p_textSize = None,
                 p_attachmentCount = 0, p_attachments = []\<rparr>, h1)
          | Some u \<Rightarrow>
              await (fetchRawByUid E u h1)
                (\<lambda>rawBuffer h2.
                   case simpleParser E rawBuffer of
                     Inl e \<Rightarrow> (Rejected e, h2)
                   | Inr parsedMail \<Rightarrow>
                       (let attachmentMeta = attachment_metas u 0 (m_attachments parsedMail);
                            htmlString = or_else (m_html parsedMail) [];
                            textString = or_else (m_text parsedMail) []
                        in case (case m_date parsedMail of
                                   None \<Rightarrow> Inr None
                                 | Some d \<Rightarrow> map_sum (\<lambda>e. e) Some (toISOString d)) of
                             Inl e \<Rightarrow> (Rejected e, h2)
                           | Inr isoDate \<Rightarrow>
                               (Resolved \<lparr>r_id = ident, r_idType = idType, r_mailbox = mb,
                                  r_found = True, r_uid = Some (string_of_nat u),
                                  r_error = None,
                                  p_subject = or_undefined (m_subject parsedMail),
                                  p_from = formatAddress (m_from parsedMail),
                                  p_to = formatAddress (m_to parsedMail),
                                  p_date = isoDate,
                                  p_messageId = or_undefined (m_messageId parsedMail),
                                  p_hasHtml = Some (or_undefined (m_html parsedMail) \<noteq> None),
                                  p_hasText = Some (or_undefined (m_text parsedMail) \<noteq> None),
                                  p_htmlSize = Some (length htmlString),
                                  p_textSize = Some (length textString),
                                  p_attachmentCount = length attachmentMeta,
                                  p_attachments = attachmentMeta\<rparr>, h2))))"

definition peek_entry ::
    "env \<Rightarrow> id_type \<Rightarrow> string \<Rightarrow> string \<Rightarrow> call list \<Rightarrow> peek_result io" where
  "peek_entry E idType mb ident h =
     (case peek_try E idType mb ident h of
        (Rejected e, h1) \<Rightarrow>
          (Resolved \<lparr>r_id = ident, r_idType = idType, r_mailbox = mb, r_found = False,
             r_uid = None, r_error = Some (message_of e),
             p_subject = None, p_from = None, p_to = None, p_date = None,
             p_messageId = None, p_hasHtml = None, p_hasText = None,
             p_htmlSize = None, p_textSize = None,
             p_attachmentCount = 0, p_attachments = []\<rparr>, h1)
      | other \<Rightarrow> other)"

fun run_peek ::
    "env \<Rightarrow> id_type \<Rightarrow> string \<Rightarrow> string list \<Rightarrow> peek_result list \<Rightarrow> call list
      \<Rightarrow> (peek_result list) io" where
  "run_peek E idType mb [] results h = (Resolved results, h)"
| "run_peek E idType mb (ident # rest) results h =
     (case peek_entry E idType mb ident h of
        (Resolved r, h1) \<Rightarrow> run_peek E idType mb rest (results @ [r]) h1
      | (Rejected e, h1) \<Rightarrow> (Rejected e, h1)
      | (Pending, h1) \<Rightarrow> (Pending, h1))"

definition peekMessages ::
    "env \<Rightarrow> ids_argument \<Rightarrow> id_type \<Rightarrow> string \<Rightarrow> call list \<Rightarrow> (peek_result list) io" where
  "peekMessages E messageIds idType mb h =
     (let ids = normalizeMessageIds messageIds
      in with_session E mb (run_peek E idType mb ids []) h)"

section \<open>The content of one message\<close>

datatype body_format = FormatHtml | FormatText | FormatRaw

record content_result =
  c_id :: string
  c_format :: body_format
  c_body :: utf16
  c_mailbox :: string
  c_rawFilePath :: "string option"
  c_rawSize :: "nat option"
  c_hasHtml :: "bool option"
  c_hasText :: "bool option"

text \<open>The code units of a string of the model.\<close>

definition units_of :: "string \<Rightarrow> utf16" where
  "units_of s = map of_char s"

definition writeRawToTemp :: "env \<Rightarrow> bytes \<Rightarrow> nat \<Rightarrow> call list \<Rightarrow> (string \<times> nat) io" where
  "writeRawToTemp E raw u h =
     (let h1 = h @ [RandomBytes 6];
          token = toString_hex (on_randomBytes E h1);
          fname = ''message-'' @ string_of_nat u @ ''-'' @ token @ ''.eml'';
          filePath = join E (tmpdir E) fname;
          h2 = h1 @ [WriteFile filePath raw]
      in case on_writeFile E h2 of
           Some err \<Rightarrow> (Rejected err, h2)
         | None \<Rightarrow> (Resolved (filePath, length raw), h2))"

text \<open>The body in the chosen format, with the \<open>hasHtml\<close> and \<open>hasText\<close> flags.\<close>

definition render_body ::
    "env \<Rightarrow> body_format \<Rightarrow> bytes \<Rightarrow> exn + (utf16 \<times> bool option \<times> bool option)" where
  "render_body E fmt rawBuffer =
     (if fmt = FormatRaw then Inr (toString_utf8 rawBuffer, None, None)
      else case simpleParser E rawBuffer of
             Inl e \<Rightarrow> Inl e
           | Inr parsed \<Rightarrow>
               (let html = or_undefined (m_html parsed);
                    txt = or_undefined (m_text parsed);
                    textAsHtml = or_undefined (m_textAsHtml parsed);
                    body =
                      (if fmt = FormatHtml
                       then (case m_html parsed of
                               Some hs \<Rightarrow> hs
                             | None \<Rightarrow>
                                 (case textAsHtml of
                                    Some t \<Rightarrow> t
                                  | None \<Rightarrow> (case txt of Some t \<Rightarrow> t | None \<Rightarrow> [])))
                       else (case txt of
                               Some t \<Rightarrow> t
                             | None \<Rightarrow>
                                 (case m_html parsed of
                                    Some hs \<Rightarrow> htmlToText E hs
                                  | None \<Rightarrow>
                                      (case textAsHtml of
                                         Some t \<Rightarrow> htmlToText E t
                                       | None \<Rightarrow> []))))
                in Inr (units_of body, Some (html \<noteq> None), Some (txt \<noteq> None))))"

text \<open>\<open>finalize\<close>, run when the fetch has ended.\<close>

definition finalize ::
    "env \<Rightarrow> string \<Rightarrow> nat \<Rightarrow> body_format \<Rightarrow> bool \<Rightarrow> string \<Rightarrow> bool \<Rightarrow> bytes list
      \<Rightarrow> call list \<Rightarrow> content_result io" where
  "finalize E ident u fmt saveRawToFile mb foundMessage rawChunks h =
     (if \<not> foundMessage then (Rejected (Error (''Message not found for id: '' @ ident)), h)
      else (let rawBuffer = concat rawChunks
            in case render_body E fmt rawBuffer of
                 Inl e \<Rightarrow> (Rejected e, h)
               | Inr (body, hasHtml, hasText) \<Rightarrow>
                   (if saveRawToFile
                    then await (writeRawToTemp E rawBuffer u h)
                           (\<lambda>saved h1.
                              (Resolved \<lparr>c_id = ident, c_format = fmt, c_body = body,
                                 c_mailbox = mb, c_rawFilePath = Some (fst saved),
                                 c_rawSize = Some (snd saved),
                                 c_hasHtml = hasHtml, c_hasText = hasText\<rparr>, h1))
                    else (Resolved \<lparr>c_id = ident, c_format = fmt, c_body = body,
                            c_mailbox = mb, c_rawFilePath = None, c_rawSize = None,
                            c_hasHtml = hasHtml, c_hasText = hasText\<rparr>, h))))"

text \<open>
  The handlers of the fetch in \<open>getMessageContent\<close>. The \<open>end\<close> handler ends the connection
  and runs \<open>finalize\<close>, whose result settles the promise; \<open>finalize\<close> is taken to complete
  before the next event is delivered.
\<close>

record content_state =
  rawChunks :: "bytes list"
  foundMessage :: bool
  c_promise :: "content_result outcome"
  c_error_armed :: bool
  c_end_armed :: bool
  c_history :: "call list"

definition content_handler ::
    "env \<Rightarrow> string \<Rightarrow> nat \<Rightarrow> body_format \<Rightarrow> bool \<Rightarrow> string \<Rightarrow> content_state \<Rightarrow> fetch_event
      \<Rightarrow> content_state" where
  "content_handler E ident u fmt saveRawToFile mb s ev =
     (case ev of
        MessageEv \<Rightarrow> s\<lparr>foundMessage := True\<rparr>
      | DataEv c \<Rightarrow>
          if foundMessage s then s\<lparr>rawChunks := rawChunks s @ [coerce_chunk c]\<rparr> else s
      | ErrorEv fetchErr \<Rightarrow>
          if c_error_armed s
          then s\<lparr>c_error_armed := False, c_promise := settle (c_promise s) (Rejected fetchErr)\<rparr>
          else s
      | EndEv \<Rightarrow>
          if c_end_armed s
          then (case finalize E ident u fmt saveRawToFile mb (foundMessage s) (rawChunks s)
                       (c_history s @ [EndConnection]) of
                  (res, h1) \<Rightarrow>
                    s\<lparr>c_end_armed := False, c_promise := settle (c_promise s) res,
                      c_history := h1\<rparr>)
          else s)"

definition getMessageContent ::
    "env \<Rightarrow> string \<Rightarrow> body_format \<Rightarrow> bool \<Rightarrow> string \<Rightarrow> call list \<Rightarrow> content_result io" where
  "getMessageContent E ident fmt saveRawToFile mb h =
     (case parseInt10 ident of
        Finite v \<Rightarrow>
          (if v \<le> 0 then (Rejected (Error (''Invalid message id: '' @ ident)), h)
           else (let u = nat v; h1 = h @ [Connect]
                 in case on_connect E h1 of
                      Some err \<Rightarrow> (Rejected err, h1)
                    | None \<Rightarrow>
                        (let h2 = h1 @ [OpenBox mb True]
                         in case on_openBox E h2 of
                              Some err \<Rightarrow> (Rejected err, h2)
                            | None \<Rightarrow>
                                (let h3 = h2 @ [Fetch u [] False False];
                                     s = foldl (content_handler E ident u fmt saveRawToFile mb)
                                           \<lparr>rawChunks = [], foundMessage = False,
                                            c_promise = Pending, c_error_armed = True,
                                            c_end_armed = True, c_history = h3\<rparr>
                                           (on_fetch E h3)
                                 in (c_promise s, c_history s)))))
      | _ \<Rightarrow> (Rejected (Error (''Invalid message id: '' @ ident)), h))"

section \<open>The read status of the messages in the store\<close>

text \<open>
  Modelled from the spec: the store's side of the exchange, which is the transport
  collaborator and the server behind it, not code of the repository. The store keeps,
  for the session, whether the selected mailbox was opened read-only, and the set of
  handles whose message carries the seen flag. A fetch marks its message seen only when
  it was issued with \<open>markSeen\<close> on a mailbox opened for writing; no other call of the
  engine touches the flag.
\<close>

record store =
  read_only :: bool
  seen :: "nat set"

definition store_step :: "store \<Rightarrow> call \<Rightarrow> store" where
  "store_step st c =
     (case c of
        OpenBox mb ro \<Rightarrow> st\<lparr>read_only := ro\<rparr>
      | Fetch u bodies struct markSeen \<Rightarrow>
          if markSeen \<and> \<not> read_only st then st\<lparr>seen := insert u (seen st)\<rparr> else st
      | _ \<Rightarrow> st)"

definition store_after :: "store \<Rightarrow> call list \<Rightarrow> store" where
  "store_after st calls = foldl store_step st calls"

section \<open>Notions of the specification\<close>

text \<open>The candidates as the specification words them, on the identifier as it is given:
  bracketed then stripped for a bracket-delimited identifier (the stripped form only if
  it has content), bracketed form then raw form otherwise.\<close>

definition spec_candidates :: "string \<Rightarrow> string list" where
  "spec_candidates s =
     (if startsWith s ''<'' \<and> endsWith s ''>''
      then (if slice_1_m1 s \<noteq> [] then [s, slice_1_m1 s] else [s])
      else [''<'' @ s @ ''>'', s])"

text \<open>The header searches for a list of candidates, the answer of the store to the
  search of candidate \<open>i\<close> when the candidates before it were searched from history \<open>h\<close>,
  and an answer without a match.\<close>

definition searches :: "string list \<Rightarrow> call list" where
  "searches cs = map (Search ''MESSAGE-ID'') cs"

definition reply :: "env \<Rightarrow> call list \<Rightarrow> string list \<Rightarrow> nat \<Rightarrow> exn + nat list option" where
  "reply E h cs i = on_search E (h @ searches (take (Suc i) cs))"

definition search_misses :: "exn + nat list option \<Rightarrow> bool" where
  "search_misses a \<longleftrightarrow> a = Inr None \<or> a = Inr (Some [])"

text \<open>A terminal event of a fetch, the data chunks among a list of events, and the events
  from the first announced message on (data before it has no listener).\<close>

definition is_terminal :: "fetch_event \<Rightarrow> bool" where
  "is_terminal ev = (case ev of EndEv \<Rightarrow> True | ErrorEv e \<Rightarrow> True | _ \<Rightarrow> False)"

definition data_chunks :: "fetch_event list \<Rightarrow> chunk list" where
  "data_chunks evs = concat (map (\<lambda>ev. case ev of DataEv c \<Rightarrow> [c] | _ \<Rightarrow> []) evs)"

definition after_message :: "fetch_event list \<Rightarrow> fetch_event list" where
  "after_message evs = dropWhile (\<lambda>ev. ev \<noteq> MessageEv) evs"

text \<open>A chunk taken byte for byte, as the specification words the coercion: a string
  gives one byte per code unit, with no text encoding applied.\<close>

definition chunk_bytes_verbatim :: "chunk \<Rightarrow> bytes" where
  "chunk_bytes_verbatim c = (case c of Buf b \<Rightarrow> b | U8 b \<Rightarrow> b | Str s \<Rightarrow> map of_char s)"

text \<open>The integer a string denotes when the whole string is a decimal numeral with an
  optional minus sign, and whether a string, after leading white space and one optional
  sign, begins with a digit.\<close>

definition decimal_numeral :: "string \<Rightarrow> int option" where
  "decimal_numeral s =
     (case s of
        [] \<Rightarrow> None
      | c # r \<Rightarrow>
          if c = CHR ''-''
          then (if r \<noteq> [] \<and> list_all isDigit r then Some (- digits_value r) else None)
          else if list_all isDigit s then Some (digits_value s) else None)"

definition has_leading_digit :: "string \<Rightarrow> bool" where
  "has_leading_digit s =
     (case dropWhile isStrWhiteSpaceChar s of
        [] \<Rightarrow> False
      | c # r \<Rightarrow>
          if c = CHR ''+'' \<or> c = CHR ''-''
          then (case r of [] \<Rightarrow> False | d # _ \<Rightarrow> isDigit d)
          else isDigit c)"

text \<open>
  Kinds of calls: a header search; a call that cannot mark a message read, which for a
  fetch means the whole body (\<open>bodies: ''\<close>) without structure and without \<open>markSeen\<close>
  and for \<open>openBox\<close> means read-only. \<open>extends_by P h h'\<close>: the history \<open>h'\<close> is \<open>h\<close>
  followed by calls that all satisfy \<open>P\<close>.
\<close>

definition is_search :: "call \<Rightarrow> bool" where
  "is_search c = (case c of Search header v \<Rightarrow> True | _ \<Rightarrow> False)"

definition peek_call :: "call \<Rightarrow> bool" where
  "peek_call c =
     (case c of
        OpenBox mb ro \<Rightarrow> ro
      | Fetch u bodies struct markSeen \<Rightarrow> bodies = [] \<and> \<not> struct \<and> \<not> markSeen
      | _ \<Rightarrow> True)"

definition extends_by :: "(call \<Rightarrow> bool) \<Rightarrow> call list \<Rightarrow> call list \<Rightarrow> bool" where
  "extends_by P h h' \<longleftrightarrow> (\<exists>t. h' = h @ t \<and> list_all P t)"

text \<open>The content types eligible for inline placement, as the specification lists them:
  \<open>text/*\<close>, the markdown sub-family, and the allow-list of structured-text types; and
  the declared content type of an attachment entry, \<open>application/octet-stream\<close> when the
  entry declares none.\<close>

definition eligible_family :: "string \<Rightarrow> bool" where
  "eligible_family ctype =
     (let t = toLowerCase ctype
      in startsWith t ''text/''
         \<or> startsWith t ''text/markdown'' \<or> startsWith t ''text/x-markdown''
         \<or> startsWith t ''text/md''
         \<or> t \<in> set [''application/json'', ''application/xml'', ''text/xml'',
                      ''application/yaml'', ''application/x-yaml''])"

definition declared_type :: "attachment \<Rightarrow> string" where
  "declared_type a = or_else (a_contentType a) ''application/octet-stream''"

text \<open>
  The length of the text decoded from a buffer, as the specification words it: the
  number of its characters, one for each code point the decoder produces. A character
  from \<open>U+10000\<close> on is one character and two UTF-16 code units. \<open>spec_inline\<close> is the
  placement rule with that length.
\<close>

definition characters :: "bytes \<Rightarrow> nat" where
  "characters raw = length (code_points raw)"

definition spec_inline :: "attachment \<Rightarrow> bool" where
  "spec_inline a \<longleftrightarrow> eligible_family (declared_type a) \<and> characters (a_content a) < 1000"

text \<open>
  The placement rule with the length in UTF-16 code units, and what it asks of the
  result of an attachment once the operation has made the calls \<open>H\<close>: the result carries
  the declared type of the entry; under the rule it carries the decoded text and no
  path; otherwise it carries no text and a path, and the content of the entry was
  written to the file of that path.
\<close>

definition inline_by_policy :: "attachment \<Rightarrow> bool" where
  "inline_by_policy a \<longleftrightarrow>
     eligible_family (declared_type a) \<and> length (toString_utf8 (a_content a)) < 1000"

definition placed_by_policy :: "call list \<Rightarrow> attachment \<Rightarrow> attachment_result \<Rightarrow> bool" where
  "placed_by_policy H a r \<longleftrightarrow>
     t_contentType r = declared_type a
     \<and> (if inline_by_policy a
        then t_inlineContent r = Some (toString_utf8 (a_content a)) \<and> t_savedTo r = None
        else t_inlineContent r = None
          \<and> (case t_savedTo r of
                None \<Rightarrow> False
              | Some path \<Rightarrow> WriteFile path (a_content a) \<in> set H))"

text \<open>The record of an identifier whose processing failed with \<open>e\<close>.\<close>

definition failure_record :: "id_type \<Rightarrow> string \<Rightarrow> string \<Rightarrow> exn \<Rightarrow> attachments_result" where
  "failure_record idType mb ident e =
     \<lparr>r_id = ident, r_idType = idType, r_mailbox = mb, r_found = False,
      r_uid = None, r_error = Some (message_of e), r_attachments = []\<rparr>"

text \<open>
  The constraints of an attachment filter. The file name of an entry without one is the
  empty string, and so is its content type. The exact-name and substring constraints
  compare lower-cased names. A constraint that is absent or empty is not configured and
  holds. \<open>regex_of\<close> is the configured pattern: its source, and its flags or none.
\<close>

definition file_name :: "attachment \<Rightarrow> string" where
  "file_name a = or_else (a_filename a) []"

definition lower_type :: "attachment \<Rightarrow> string" where
  "lower_type a = or_else (map_option toLowerCase (a_contentType a)) []"

definition name_matches :: "attachment_filter \<Rightarrow> attachment \<Rightarrow> bool" where
  "name_matches f a =
     (case or_undefined (f_name f) of
        None \<Rightarrow> True
      | Some n \<Rightarrow> toLowerCase (file_name a) = toLowerCase n)"

definition contains_matches :: "attachment_filter \<Rightarrow> attachment \<Rightarrow> bool" where
  "contains_matches f a =
     (case or_undefined (f_nameContains f) of
        None \<Rightarrow> True
      | Some n \<Rightarrow> includes_str (toLowerCase (file_name a)) (toLowerCase n))"

definition regex_of :: "attachment_filter \<Rightarrow> (string \<times> string) option" where
  "regex_of f =
     (case or_undefined (f_nameRegex f) of
        None \<Rightarrow> None
      | Some src \<Rightarrow> Some (src, or_else (f_nameRegexFlags f) []))"

text \<open>
  The content-type constraint as the specification words it: the content type equals a
  listed type, case-insensitively, or the listed type ends in \<open>/*\<close> and the content type
  has the prefix that stands before the wildcard, the listed type without its \<open>*\<close>
  (\<open>image/\<close> for \<open>image/*\<close>).
\<close>

definition spec_type_listed :: "string \<Rightarrow> string \<Rightarrow> bool" where
  "spec_type_listed ctype m \<longleftrightarrow>
     ctype = toLowerCase m
     \<or> endsWith (toLowerCase m) ''/*'' \<and> startsWith ctype (butlast (toLowerCase m))"

definition spec_type_matches :: "attachment_filter \<Rightarrow> attachment \<Rightarrow> bool" where
  "spec_type_matches f a =
     (case f_mimeTypes f of
        None \<Rightarrow> True
      | Some ms \<Rightarrow> ms = [] \<or> list_ex (spec_type_listed (lower_type a)) ms)"

text \<open>
  The content-type constraint as the code reads a wildcard, by its stem: a listed type
  that ends in \<open>/*\<close> admits every content type that begins with the stem, the listed
  type without its last two characters (\<open>image\<close> for \<open>image/*\<close>), whatever follows the
  stem.
\<close>

definition stem_type_listed :: "string \<Rightarrow> string \<Rightarrow> bool" where
  "stem_type_listed ctype m \<longleftrightarrow>
     ctype = toLowerCase m
     \<or> endsWith (toLowerCase m) ''/*''
       \<and> startsWith ctype (take (length m - 2) (toLowerCase m))"

definition stem_type_matches :: "attachment_filter \<Rightarrow> attachment \<Rightarrow> bool" where
  "stem_type_matches f a =
     (case f_mimeTypes f of
        None \<Rightarrow> True
      | Some ms \<Rightarrow> ms = [] \<or> list_ex (stem_type_listed (lower_type a)) ms)"

text \<open>The answer of \<open>regex.test\<close> on the file name of an entry when the call is made
  after the history \<open>h\<close>, true when no pattern is configured.\<close>

definition test_answer :: "env \<Rightarrow> attachment_filter \<Rightarrow> attachment \<Rightarrow> call list \<Rightarrow> bool" where
  "test_answer E f a h =
     (case regex_of f of
        None \<Rightarrow> True
      | Some (src, flags) \<Rightarrow> on_test E (h @ [RegExpTest src flags (file_name a)]))"

text \<open>The call of \<open>regex.test\<close> the predicate makes for an entry: one when a pattern is
  configured and the cheaper name constraints hold, none otherwise.\<close>

definition test_calls :: "attachment_filter \<Rightarrow> attachment \<Rightarrow> call list" where
  "test_calls f a =
     (case regex_of f of
        None \<Rightarrow> []
      | Some (src, flags) \<Rightarrow>
          if name_matches f a \<and> contains_matches f a
          then [RegExpTest src flags (file_name a)] else [])"

section \<open>Sample environments\<close>

definition empty_mail :: parsed_mail where
  "empty_mail = \<lparr>m_attachments = [], m_subject = None, m_from = NoAddress, m_to = NoAddress,
     m_date = None, m_messageId = None, m_html = None, m_text = None, m_textAsHtml = None\<rparr>"

text \<open>A store that accepts the session and holds no message; every other collaborator
  succeeds.\<close>

definition quiet_env :: env where
  "quiet_env = \<lparr>on_connect = (\<lambda>h. None), on_openBox = (\<lambda>h. None),
     on_search = (\<lambda>h. Inr (Some [])), on_fetch = (\<lambda>h. [EndEv]), on_test = (\<lambda>h. True),
     on_randomBytes = (\<lambda>h. [0, 0, 0, 0, 0, 0]), on_writeFile = (\<lambda>h. None),
     regexp_error = (\<lambda>src flags. None), simpleParser = (\<lambda>raw. Inr empty_mail),
     tmpdir = ''/tmp'', join = (\<lambda>dir name. dir @ ''/'' @ name), htmlToText = (\<lambda>html. html)\<rparr>"

text \<open>A store whose only message is found under the unbracketed Message-ID \<open>a@b\<close>.\<close>

definition unbracketed_env :: env where
  "unbracketed_env = quiet_env\<lparr>on_search :=
     (\<lambda>h. if last h = Search ''MESSAGE-ID'' ''a@b'' then Inr (Some [7, 9]) else Inr (Some []))\<rparr>"

text \<open>A store that delivers one message whose body arrives as the one-character string
  U+00E9, and a store that delivers a buffer chunk, a string chunk, the end of the fetch
  and a late chunk.\<close>

definition latin1_chunk_env :: env where
  "latin1_chunk_env = quiet_env\<lparr>on_fetch := (\<lambda>h. [MessageEv, DataEv (Str [CHR 0xE9]), EndEv])\<rparr>"

definition two_chunk_env :: env where
  "two_chunk_env = quiet_env\<lparr>on_fetch :=
     (\<lambda>h. [MessageEv, DataEv (Buf [1, 2]), DataEv (Str ''ab''), EndEv, DataEv (Buf [3])])\<rparr>"

text \<open>A mailbox in which every handle holds the same message, with a short plain-text
  attachment and a PDF attachment; the same mailbox on a machine whose temporary
  directory cannot be written; and a store that refuses to open the mailbox.\<close>

definition note_attachment :: attachment where
  "note_attachment = \<lparr>a_filename = Some ''note.txt'', a_contentType = Some ''text/plain'',
     a_content = [0x68, 0x69], a_size = Some 2, a_contentDisposition = Some ''attachment'',
     a_cid = None\<rparr>"

definition report_attachment :: attachment where
  "report_attachment = \<lparr>a_filename = Some ''report.pdf'',
     a_contentType = Some ''application/pdf'', a_content = [0x25, 0x50, 0x44, 0x46],
     a_size = Some 4, a_contentDisposition = Some ''attachment'', a_cid = None\<rparr>"

definition sample_mail :: parsed_mail where
  "sample_mail = empty_mail\<lparr>m_attachments := [note_attachment, report_attachment],
     m_subject := Some ''Minutes''\<rparr>"

definition mailbox_env :: env where
  "mailbox_env = quiet_env\<lparr>on_fetch := (\<lambda>h. [MessageEv, DataEv (Buf [1]), EndEv]),
     simpleParser := (\<lambda>raw. Inr sample_mail)\<rparr>"

definition full_disk_env :: env where
  "full_disk_env = mailbox_env\<lparr>on_writeFile := (\<lambda>h. Some (Error ''ENOSPC''))\<rparr>"

definition closed_mailbox_env :: env where
  "closed_mailbox_env = quiet_env\<lparr>on_openBox := (\<lambda>h. Some (Error ''Mailbox does not exist''))\<rparr>"

text \<open>Three attachment entries that differ in their declared type.\<close>

definition png_attachment :: attachment where
  "png_attachment = \<lparr>a_filename = Some ''Logo.PNG'', a_contentType = Some ''image/png'',
     a_content = [0x89, 0x50], a_size = None, a_contentDisposition = None, a_cid = None\<rparr>"

definition jpeg_attachment :: attachment where
  "jpeg_attachment = \<lparr>a_filename = Some ''photo.jpg'', a_contentType = Some ''IMAGE/JPEG'',
     a_content = [0xFF, 0xD8], a_size = None, a_contentDisposition = None, a_cid = None\<rparr>"

definition json_attachment :: attachment where
  "json_attachment = \<lparr>a_filename = Some ''logo.json'', a_contentType = Some ''application/json'',
     a_content = [0x7B, 0x7D], a_size = None, a_contentDisposition = None, a_cid = None\<rparr>"

definition images_filter :: attachment_filter where
  "images_filter = \<lparr>f_name = None, f_nameContains = None, f_nameRegex = None,
     f_nameRegexFlags = None, f_mimeTypes = Some [''image/*'']\<rparr>"

definition logo_images_filter :: attachment_filter where
  "logo_images_filter = images_filter\<lparr>f_nameContains := Some ''LOGO''\<rparr>"

text \<open>An entry whose declared type begins with \<open>image\<close> and is not of the family
  \<open>image/\<close>.\<close>

definition imagex_attachment :: attachment where
  "imagex_attachment = \<lparr>a_filename = Some ''scan.bin'', a_contentType = Some ''imagex/png'',
     a_content = [0x00], a_size = None, a_contentDisposition = None, a_cid = None\<rparr>"

text \<open>
  A machine on which the expression \<open>/a/g\<close> is the only one in use. With the \<open>g\<close> flag
  the expression keeps \<open>lastIndex\<close>: \<open>test\<close> looks for an \<open>a\<close> from \<open>lastIndex\<close> on;
  when it finds one it answers true and sets \<open>lastIndex\<close> behind it, otherwise it answers
  false and sets \<open>lastIndex\<close> to zero. \<open>global_a_step\<close> is the \<open>lastIndex\<close> after a call,
  so a test has matched exactly when the \<open>lastIndex\<close> after it is not zero. The filter asks
  for that pattern only; the three entries are all named \<open>a\<close>.
\<close>

definition index_of_a_from :: "string \<Rightarrow> nat \<Rightarrow> nat option" where
  "index_of_a_from input i =
     (case dropWhile (\<lambda>c. c \<noteq> CHR ''a'') (drop i input) of
        [] \<Rightarrow> None
      | _ \<Rightarrow> Some (i + length (takeWhile (\<lambda>c. c \<noteq> CHR ''a'') (drop i input))))"

definition global_a_step :: "nat \<Rightarrow> call \<Rightarrow> nat" where
  "global_a_step lastIndex c =
     (case c of
        RegExpTest src flags input \<Rightarrow>
          (case index_of_a_from input lastIndex of Some j \<Rightarrow> j + 1 | None \<Rightarrow> 0)
      | _ \<Rightarrow> lastIndex)"

definition global_a_env :: env where
  "global_a_env = quiet_env\<lparr>on_test := (\<lambda>h. foldl global_a_step 0 h \<noteq> 0)\<rparr>"

definition global_a_filter :: attachment_filter where
  "global_a_filter = \<lparr>f_name = None, f_nameContains = None, f_nameRegex = Some ''a'',
     f_nameRegexFlags = Some ''g'', f_mimeTypes = None\<rparr>"

definition first_a :: attachment where
  "first_a = \<lparr>a_filename = Some ''a'', a_contentType = Some ''text/plain'',
     a_content = [0x31], a_size = None, a_contentDisposition = None, a_cid = Some ''1''\<rparr>"

definition second_a :: attachment where
  "second_a = first_a\<lparr>a_content := [0x32], a_cid := Some ''2''\<rparr>"

definition third_a :: attachment where
  "third_a = first_a\<lparr>a_content := [0x33], a_cid := Some ''3''\<rparr>"

text \<open>A plain-text attachment of 500 characters, each the character \<open>U+1F600\<close>, which
  UTF-8 encodes in the four bytes \<open>F0 9F 98 80\<close>.\<close>

definition smiley_text :: bytes where
  "smiley_text = concat (replicate 500 [0xF0, 0x9F, 0x98, 0x80])"

definition smiley_attachment :: attachment where
  "smiley_attachment = \<lparr>a_filename = Some ''smile.txt'', a_contentType = Some ''text/plain'',
     a_content = smiley_text, a_size = None, a_contentDisposition = None, a_cid = None\<rparr>"

section \<open>Properties\<close>

subsection \<open>Resolution of a Message-ID\<close>

lemma reply_0: "reply E h (c # cs) 0 = on_search E (h @ [Search ''MESSAGE-ID'' c])"
  by (simp add: reply_def searches_def)

lemma reply_Suc: "reply E h (c # cs) (Suc i) = reply E (h @ [Search ''MESSAGE-ID'' c]) cs i"
  by (simp add: reply_def searches_def)

lemma all_less_Suc: "(\<forall>i<Suc n. P i) \<longleftrightarrow> P 0 \<and> (\<forall>i<n. P (Suc i))"
  by (metis less_Suc_eq_0_disj)

lemma search_candidates_miss:
  "(\<forall>i<length cs. search_misses (reply E h cs i)) \<Longrightarrow>
     search_candidates E cs h = (Resolved None, h @ searches cs)"
proof (induction cs arbitrary: h)
  case Nil
  then show ?case by (simp add: searches_def)
next
  case (Cons c cs)
  from Cons.prems have first: "search_misses (on_search E (h @ [Search ''MESSAGE-ID'' c]))"
    and rest: "\<forall>i<length cs. search_misses (reply E (h @ [Search ''MESSAGE-ID'' c]) cs i)"
    by (simp_all add: all_less_Suc reply_0 reply_Suc)
  from Cons.IH [OF rest] first show ?case
    by (auto simp: searchUidsByHeader_def search_misses_def searches_def)
qed

lemma search_candidates_hit:
  "k < length cs \<Longrightarrow> (\<forall>i<k. search_misses (reply E h cs i)) \<Longrightarrow>
   reply E h cs k = Inr (Some (r # rs)) \<Longrightarrow>
     search_candidates E cs h = (Resolved (Some r), h @ searches (take (Suc k) cs))"
proof (induction cs arbitrary: h k)
  case Nil
  then show ?case by simp
next
  case (Cons c cs)
  show ?case
  proof (cases k)
    case 0
    with Cons.prems show ?thesis
      by (simp add: reply_0 searchUidsByHeader_def searches_def)
  next
    case (Suc j)
    with Cons.prems have first: "search_misses (on_search E (h @ [Search ''MESSAGE-ID'' c]))"
      and rest: "\<forall>i<j. search_misses (reply E (h @ [Search ''MESSAGE-ID'' c]) cs i)"
      and hit: "reply E (h @ [Search ''MESSAGE-ID'' c]) cs j = Inr (Some (r # rs))"
      and j: "j < length cs"
      by (simp_all add: all_less_Suc reply_0 reply_Suc)
    from Cons.IH [OF j rest hit] first Suc show ?thesis
      by (auto simp: searchUidsByHeader_def search_misses_def searches_def)
  qed
qed

lemma search_candidates_error:
  "k < length cs \<Longrightarrow> (\<forall>i<k. search_misses (reply E h cs i)) \<Longrightarrow>
   reply E h cs k = Inl e \<Longrightarrow>
     search_candidates E cs h = (Rejected e, h @ searches (take (Suc k) cs))"
proof (induction cs arbitrary: h k)
  case Nil
  then show ?case by simp
next
  case (Cons c cs)
  show ?case
  proof (cases k)
    case 0
    with Cons.prems show ?thesis
      by (simp add: reply_0 searchUidsByHeader_def searches_def)
  next
    case (Suc j)
    with Cons.prems have first: "search_misses (on_search E (h @ [Search ''MESSAGE-ID'' c]))"
      and rest: "\<forall>i<j. search_misses (reply E (h @ [Search ''MESSAGE-ID'' c]) cs i)"
      and err: "reply E (h @ [Search ''MESSAGE-ID'' c]) cs j = Inl e"
      and j: "j < length cs"
      by (simp_all add: all_less_Suc reply_0 reply_Suc)
    from Cons.IH [OF j rest err] first Suc show ?thesis
      by (auto simp: searchUidsByHeader_def search_misses_def searches_def)
  qed
qed

lemma search_candidates_None_only:
  "fst (search_candidates E cs h) = Resolved None \<Longrightarrow>
     (\<forall>i<length cs. search_misses (reply E h cs i))"
proof (induction cs arbitrary: h)
  case Nil
  then show ?case by simp
next
  case (Cons c cs)
  from Cons.prems have first: "search_misses (on_search E (h @ [Search ''MESSAGE-ID'' c]))"
    by (auto simp: searchUidsByHeader_def search_misses_def Let_def
        split: sum.splits option.splits list.splits)
  with Cons.prems
  have "fst (search_candidates E cs (h @ [Search ''MESSAGE-ID'' c])) = Resolved None"
    by (auto simp: searchUidsByHeader_def search_misses_def Let_def
        split: sum.splits option.splits list.splits)
  from Cons.IH [OF this] first show ?case
    by (simp add: all_less_Suc reply_0 reply_Suc)
qed

lemma candidates_as_spec:
  "buildMessageIdCandidates messageId =
     (if trim messageId = [] then [] else spec_candidates (trim messageId))"
  by (simp add: buildMessageIdCandidates_def spec_candidates_def Let_def)

text \<open>
  Claim C5, as the specification states it, takes the candidates from the identifier as
  given: \<open>[bracketed, stripped]\<close> or \<open>[bracketed-form, raw-form]\<close>. The code trims the
  identifier first and gives a blank identifier no candidate at all, so the two differ
  at an identifier made of one space: the specification's candidates are \<open>< >\<close> and the
  space itself, the code searches for nothing.
\<close>

theorem candidates_of_blank_identifier_counterexample:
  "\<not> (\<forall>messageId. buildMessageIdCandidates messageId = spec_candidates messageId)"
proof
  assume "\<forall>messageId. buildMessageIdCandidates messageId = spec_candidates messageId"
  then have "buildMessageIdCandidates '' '' = spec_candidates '' ''" by blast
  moreover have "buildMessageIdCandidates '' '' = []" by code_simp
  moreover have "spec_candidates '' '' = [''< >'', '' '']" by code_simp
  ultimately show False by simp
qed

text \<open>
  Claim C5, amended. The candidates of a \<open>message-id\<close> identifier are those of the
  specification for the identifier with its surrounding white space trimmed, and a blank
  identifier has none. Resolution issues the \<open>MESSAGE-ID\<close> header searches of the
  candidates in order and nothing else: it answers not-found exactly when every
  candidate was searched without a match, and then all candidates were searched; when
  candidate \<open>k\<close> is the first with a match, it returns the first match of that answer
  and the searches stop at candidate \<open>k\<close>; when the search of candidate \<open>k\<close> is the first
  to fail, resolution fails with that error and the searches stop there.
\<close>

theorem resolveUidForMessageId_searches_candidates_in_order:
  assumes "cs = buildMessageIdCandidates messageId"
  shows "cs = (if trim messageId = [] then [] else spec_candidates (trim messageId))
    \<and> (fst (resolveUidForMessageId E messageId h) = Resolved None
         \<longleftrightarrow> (\<forall>i<length cs. search_misses (reply E h cs i)))
    \<and> ((\<forall>i<length cs. search_misses (reply E h cs i))
         \<longrightarrow> snd (resolveUidForMessageId E messageId h) = h @ searches cs)
    \<and> (\<forall>k r rs. k < length cs \<and> (\<forall>i<k. search_misses (reply E h cs i))
           \<and> reply E h cs k = Inr (Some (r # rs))
         \<longrightarrow> resolveUidForMessageId E messageId h
               = (Resolved (Some r), h @ searches (take (Suc k) cs)))
    \<and> (\<forall>k e. k < length cs \<and> (\<forall>i<k. search_misses (reply E h cs i))
           \<and> reply E h cs k = Inl e
         \<longrightarrow> resolveUidForMessageId E messageId h
               = (Rejected e, h @ searches (take (Suc k) cs)))"
proof -
  have res: "resolveUidForMessageId E messageId h = search_candidates E cs h"
    using assms by (simp add: resolveUidForMessageId_def)
  have c1: "cs = (if trim messageId = [] then [] else spec_candidates (trim messageId))"
    using assms candidates_as_spec by simp
  have c2: "fst (resolveUidForMessageId E messageId h) = Resolved None
      \<longleftrightarrow> (\<forall>i<length cs. search_misses (reply E h cs i))"
    using search_candidates_None_only [of E cs h] search_candidates_miss [of cs E h]
    by (auto simp: res)
  have c3: "(\<forall>i<length cs. search_misses (reply E h cs i))
      \<longrightarrow> snd (resolveUidForMessageId E messageId h) = h @ searches cs"
    using search_candidates_miss [of cs E h] by (simp add: res)
  have c4: "\<forall>k r rs. k < length cs \<and> (\<forall>i<k. search_misses (reply E h cs i))
        \<and> reply E h cs k = Inr (Some (r # rs))
      \<longrightarrow> resolveUidForMessageId E messageId h
            = (Resolved (Some r), h @ searches (take (Suc k) cs))"
    using search_candidates_hit [of _ cs E h] by (simp add: res)
  have c5: "\<forall>k e. k < length cs \<and> (\<forall>i<k. search_misses (reply E h cs i))
        \<and> reply E h cs k = Inl e
      \<longrightarrow> resolveUidForMessageId E messageId h
            = (Rejected e, h @ searches (take (Suc k) cs))"
    using search_candidates_error [of _ cs E h] by (simp add: res)
  from c1 c2 c3 c4 c5 show ?thesis by blast
qed

text \<open>The amended claim at the identifier \<open>a@b\<close> in a store that knows the message by its
  unbracketed form only: the bracketed form is searched first and misses, the raw form
  is searched next, and its first match is the handle.\<close>

theorem resolveUidForMessageId_searches_candidates_in_order_witness:
  "resolveUidForMessageId unbracketed_env ''a@b'' []
     = (Resolved (Some 7), [Search ''MESSAGE-ID'' ''<a@b>'', Search ''MESSAGE-ID'' ''a@b''])"
proof -
  have cs: "[''<a@b>'', ''a@b''] = buildMessageIdCandidates ''a@b''"
    by code_simp
  have miss: "\<forall>i<1. search_misses (reply unbracketed_env [] [''<a@b>'', ''a@b''] i)"
    by (simp add: reply_def searches_def search_misses_def unbracketed_env_def)
  have hit: "reply unbracketed_env [] [''<a@b>'', ''a@b''] 1 = Inr (Some (7 # [9]))"
    by (simp add: reply_def searches_def unbracketed_env_def)
  have "(1::nat) < length [''<a@b>'', ''a@b'']" by simp
  with miss hit
    resolveUidForMessageId_searches_candidates_in_order [OF cs, of unbracketed_env "[]"]
  have "resolveUidForMessageId unbracketed_env ''a@b'' []
      = (Resolved (Some 7), [] @ searches (take (Suc 1) [''<a@b>'', ''a@b'']))"
    by blast
  then show ?thesis by (simp add: searches_def)
qed

subsection \<open>The raw message of a handle\<close>

lemma settled_stays:
  "promise s \<noteq> Pending \<Longrightarrow> promise (foldl (fetch_handler uid) s evs) = promise s"
proof (induction evs arbitrary: s)
  case Nil
  then show ?case by simp
next
  case (Cons ev evs)
  have "promise (fetch_handler uid s ev) = promise s"
    using Cons.prems by (cases ev) (auto simp: fetch_handler_def settle_def split: outcome.splits)
  with Cons show ?case by simp
qed

lemma before_terminal:
  "\<not> list_ex is_terminal pre \<Longrightarrow>
   foldl (fetch_handler uid) s pre =
     s\<lparr>found := found s \<or> MessageEv \<in> set pre,
       chunks := chunks s @ map coerce_chunk
         (data_chunks (if found s then pre else after_message pre))\<rparr>"
proof (induction pre arbitrary: s)
  case Nil
  then show ?case by (simp add: data_chunks_def after_message_def)
next
  case (Cons ev pre)
  then have rest: "\<not> list_ex is_terminal pre" and ev: "\<not> is_terminal ev" by simp_all
  show ?case
  proof (cases ev)
    case MessageEv
    then show ?thesis
      using Cons.IH [OF rest, of "fetch_handler uid s ev"]
      by (simp add: fetch_handler_def data_chunks_def after_message_def)
  next
    case (DataEv c)
    then show ?thesis
      using Cons.IH [OF rest, of "fetch_handler uid s ev"]
      by (simp add: fetch_handler_def data_chunks_def after_message_def)
  next
    case (ErrorEv e)
    with ev show ?thesis by (simp add: is_terminal_def)
  next
    case EndEv
    with ev show ?thesis by (simp add: is_terminal_def)
  qed
qed

lemma fetch_fold_terminal:
  assumes "\<not> list_ex is_terminal pre"
  shows "promise (foldl (fetch_handler uid) fetch_init (pre @ t # post)) =
     (case t of
        EndEv \<Rightarrow>
          if MessageEv \<in> set pre
          then Resolved (concat (map coerce_chunk (data_chunks (after_message pre))))
          else Rejected (Error (''Message not found for UID: '' @ string_of_nat uid))
      | ErrorEv e \<Rightarrow> Rejected e
      | _ \<Rightarrow> promise (foldl (fetch_handler uid) fetch_init (pre @ t # post)))"
proof (cases "is_terminal t")
  case False
  then show ?thesis by (cases t) (simp_all add: is_terminal_def)
next
  case True
  define s where "s = foldl (fetch_handler uid) fetch_init pre"
  have s: "s = \<lparr>chunks = map coerce_chunk (data_chunks (after_message pre)),
      found = MessageEv \<in> set pre, promise = Pending,
      error_armed = True, end_armed = True\<rparr>"
    unfolding s_def using before_terminal [OF assms, of uid fetch_init]
    by (simp add: fetch_init_def)
  have step: "promise (fetch_handler uid s t) =
     (case t of
        EndEv \<Rightarrow>
          if MessageEv \<in> set pre
          then Resolved (concat (map coerce_chunk (data_chunks (after_message pre))))
          else Rejected (Error (''Message not found for UID: '' @ string_of_nat uid))
      | ErrorEv e \<Rightarrow> Rejected e
      | _ \<Rightarrow> Pending)"
    by (cases t) (simp_all add: s fetch_handler_def settle_def)
  with True have "promise (fetch_handler uid s t) \<noteq> Pending"
    by (cases t) (simp_all add: is_terminal_def)
  then have "promise (foldl (fetch_handler uid) (fetch_handler uid s t) post)
      = promise (fetch_handler uid s t)"
    by (rule settled_stays)
  then have "promise (foldl (fetch_handler uid) fetch_init (pre @ t # post))
      = promise (fetch_handler uid s t)"
    by (simp add: s_def)
  with step True show ?thesis
    by (cases t) (simp_all add: is_terminal_def)
qed

lemma fetch_fold_pending:
  assumes "\<not> list_ex is_terminal evs"
  shows "promise (foldl (fetch_handler uid) fetch_init evs) = Pending"
  using before_terminal [OF assms, of uid fetch_init] by (simp add: fetch_init_def)



lemma utf8_encode_ascii:
  "list_all (\<lambda>c. (of_char c :: nat) < 128) s \<Longrightarrow> utf8_encode s = map of_char s"
  by (induction s) (simp_all add: utf8_encode_def of_nat_of_char)

text \<open>
  Claim C6, as the specification states it, has every chunk that is not a byte sequence
  coerced byte for byte, never encoded as text. \<open>Buffer.from\<close> encodes a string chunk as
  UTF-8: the one-character chunk U+00E9 becomes the two bytes C3 A9, not the byte E9.
\<close>

theorem fetchRawByUid_string_chunk_counterexample:
  "fst (fetchRawByUid latin1_chunk_env 5 [])
     \<noteq> Resolved (concat (map chunk_bytes_verbatim
           (data_chunks (on_fetch latin1_chunk_env [Fetch 5 [] False False]))))"
  by (simp add: fetchRawByUid_def latin1_chunk_env_def quiet_env_def fetch_handler_def
      fetch_init_def settle_def coerce_chunk_def utf8_encode_def chunk_bytes_verbatim_def
      data_chunks_def)

text \<open>
  Claim C6, amended. \<open>fetchRawByUid\<close> issues one fetch of the handle. Let \<open>t\<close> be the first
  terminal event and \<open>pre\<close> the events before it. If \<open>t\<close> is the end event and a message
  was announced in \<open>pre\<close>, the result is the concatenation, in delivery order, of the data
  chunks heard before \<open>t\<close>, each as \<open>coerce_chunk\<close> gives it: a buffer or byte array
  unchanged, a string as its UTF-8 encoding (which is byte for byte when the string is
  ASCII). If \<open>t\<close> is the end event and no message was announced, the fetch fails with the
  not-found error. If \<open>t\<close> is an error event, the fetch fails with that error.
\<close>

theorem fetchRawByUid_accumulates_until_terminal:
  assumes "on_fetch E (h @ [Fetch uid [] False False]) = pre @ t # post"
    and "\<not> list_ex is_terminal pre"
    and "is_terminal t"
  shows "snd (fetchRawByUid E uid h) = h @ [Fetch uid [] False False]
    \<and> (t = EndEv \<and> MessageEv \<in> set pre \<longrightarrow>
         fst (fetchRawByUid E uid h)
           = Resolved (concat (map coerce_chunk (data_chunks (after_message pre)))))
    \<and> (t = EndEv \<and> MessageEv \<notin> set pre \<longrightarrow>
         fst (fetchRawByUid E uid h)
           = Rejected (Error (''Message not found for UID: '' @ string_of_nat uid)))
    \<and> (\<forall>e. t = ErrorEv e \<longrightarrow> fst (fetchRawByUid E uid h) = Rejected e)
    \<and> coerce_chunk (Buf b) = b \<and> coerce_chunk (U8 b) = b
    \<and> coerce_chunk (Str s) = utf8_encode s
    \<and> (list_all (\<lambda>c. (of_char c :: nat) < 128) s \<longrightarrow> utf8_encode s = map of_char s)"
proof -
  have p: "fst (fetchRawByUid E uid h)
      = promise (foldl (fetch_handler uid) fetch_init (pre @ t # post))"
    using assms(1) by (simp add: fetchRawByUid_def Let_def)
  have c1: "snd (fetchRawByUid E uid h) = h @ [Fetch uid [] False False]"
    by (simp add: fetchRawByUid_def Let_def)
  have c2: "t = EndEv \<and> MessageEv \<in> set pre \<longrightarrow>
      fst (fetchRawByUid E uid h)
        = Resolved (concat (map coerce_chunk (data_chunks (after_message pre))))"
    using fetch_fold_terminal [OF assms(2), of uid t post] by (auto simp: p)
  have c3: "t = EndEv \<and> MessageEv \<notin> set pre \<longrightarrow>
      fst (fetchRawByUid E uid h)
        = Rejected (Error (''Message not found for UID: '' @ string_of_nat uid))"
    using fetch_fold_terminal [OF assms(2), of uid t post] by (auto simp: p)
  have c4: "\<forall>e. t = ErrorEv e \<longrightarrow> fst (fetchRawByUid E uid h) = Rejected e"
    using fetch_fold_terminal [OF assms(2), of uid t post] by (auto simp: p)
  have c5: "coerce_chunk (Buf b) = b \<and> coerce_chunk (U8 b) = b
      \<and> coerce_chunk (Str s) = utf8_encode s"
    by (simp add: coerce_chunk_def)
  have c6: "list_all (\<lambda>c. (of_char c :: nat) < 128) s \<longrightarrow> utf8_encode s = map of_char s"
    using utf8_encode_ascii by blast
  from c1 c2 c3 c4 c5 c6 show ?thesis by blast
qed

text \<open>The amended claim at a fetch that delivers a buffer chunk, an ASCII string chunk,
  the end event and a late chunk: the two chunks before the end are joined in order.\<close>

theorem fetchRawByUid_accumulates_until_terminal_witness:
  "fetchRawByUid two_chunk_env 5 [] = (Resolved [1, 2, 0x61, 0x62], [Fetch 5 [] False False])"
proof -
  have evs: "on_fetch two_chunk_env ([] @ [Fetch 5 [] False False])
      = [MessageEv, DataEv (Buf [1, 2]), DataEv (Str ''ab'')] @ EndEv # [DataEv (Buf [3])]"
    by (simp add: two_chunk_env_def)
  have pre: "\<not> list_ex is_terminal [MessageEv, DataEv (Buf [1, 2]), DataEv (Str ''ab'')]"
    by (simp add: is_terminal_def)
  have t: "is_terminal EndEv"
    by (simp add: is_terminal_def)
  have ascii: "list_all (\<lambda>c. (of_char c :: nat) < 128) ''ab''"
    by simp
  from fetchRawByUid_accumulates_until_terminal [OF evs pre t, of "[1, 2]" "''ab''"] ascii
  have "snd (fetchRawByUid two_chunk_env 5 []) = [Fetch 5 [] False False]"
    and "fst (fetchRawByUid two_chunk_env 5 [])
      = Resolved (concat (map coerce_chunk
          (data_chunks (after_message [MessageEv, DataEv (Buf [1, 2]), DataEv (Str ''ab'')]))))"
    and "coerce_chunk (Buf [1, 2]) = [1, 2]"
    and "coerce_chunk (Str ''ab'') = map of_char ''ab''"
    by simp_all
  then show ?thesis
    by (simp add: prod_eq_iff data_chunks_def after_message_def)
qed

subsection \<open>Handles parsed from identifiers\<close>

lemma digit_not_space: "isDigit c \<Longrightarrow> \<not> isStrWhiteSpaceChar c"
  by (auto simp: isDigit_def isStrWhiteSpaceChar_def)

lemma digit_not_sign: "isDigit c \<Longrightarrow> c \<noteq> CHR ''+'' \<and> c \<noteq> CHR ''-''"
  by (auto simp: isDigit_def)

lemma minus_not_space: "\<not> isStrWhiteSpaceChar CHR ''-''"
  by (simp add: isStrWhiteSpaceChar_def)

lemma takeWhile_all: "list_all P xs \<Longrightarrow> takeWhile P xs = xs"
  by (induction xs) simp_all

lemma digits_fold_nonneg:
  "list_all isDigit ds \<Longrightarrow> 0 \<le> acc \<Longrightarrow>
     0 \<le> foldl (\<lambda>acc c. 10 * acc + (of_char c - 48)) (acc::int) ds"
proof (induction ds arbitrary: acc)
  case Nil
  then show ?case by simp
next
  case (Cons d ds)
  from Cons.prems have "48 \<le> (of_char d :: nat)" by (simp add: isDigit_def)
  then have "48 \<le> int (of_char d)" by linarith
  then have "(48::int) \<le> of_char d" by (simp add: of_nat_of_char)
  with Cons.prems have "0 \<le> 10 * acc + (of_char d - 48)" by simp
  with Cons show ?case by simp
qed

lemma digits_value_nonneg: "list_all isDigit ds \<Longrightarrow> 0 \<le> digits_value ds"
  by (simp add: digits_value_def digits_fold_nonneg)

lemma no_leading_digit_NaN:
  assumes "\<not> has_leading_digit s"
  shows "parseInt10 s = NaN"
proof -
  define t where "t = dropWhile isStrWhiteSpaceChar s"
  have "takeWhile isDigit
      (case t of [] \<Rightarrow> t | c # r \<Rightarrow> if c = CHR ''+'' \<or> c = CHR ''-'' then r else t) = []"
  proof (cases t)
    case Nil
    then show ?thesis by simp
  next
    case (Cons c r)
    with assms show ?thesis
      by (cases r) (auto simp: has_leading_digit_def t_def [symmetric] split: if_splits)
  qed
  then show ?thesis
    unfolding t_def by (simp add: parseInt10_def Let_def)
qed

lemma nonpositive_numeral_null:
  assumes "decimal_numeral s = Some v" and "v \<le> 0"
  shows "positive_or_null (parseInt10 s) = None"
proof (cases s)
  case Nil
  with assms show ?thesis by (simp add: decimal_numeral_def)
next
  case (Cons c r)
  show ?thesis
  proof (cases "c = CHR ''-''")
    case True
    with assms Cons have r: "r \<noteq> []" "list_all isDigit r"
      by (auto simp: decimal_numeral_def split: if_splits)
    then have "0 \<le> digits_value r" by (simp add: digits_value_nonneg)
    with r True Cons show ?thesis
      by (simp add: parseInt10_def Let_def minus_not_space takeWhile_all positive_or_null_def)
  next
    case False
    with assms Cons have d: "list_all isDigit (c # r)" "digits_value (c # r) = v"
      by (auto simp: decimal_numeral_def split: if_splits)
    then have c: "isDigit c" and r: "list_all isDigit r" by simp_all
    have z: "takeWhile isDigit (c # r) = c # r"
      using d(1) by (rule takeWhile_all)
    have t: "dropWhile isStrWhiteSpaceChar (c # r) = c # r"
      using digit_not_space [OF c] by simp
    have "parseInt10 (c # r) =
        (if 2 ^ 1024 - 2 ^ 970 \<le> digits_value (c # r) then PosInfinity
         else Finite (digits_value (c # r)))"
      unfolding parseInt10_def Let_def t using digit_not_sign [OF c] z by simp
    with d(2) assms(2) Cons show ?thesis
      by (simp add: positive_or_null_def)
  qed
qed

lemma uid_not_found_download:
  "positive_or_null (parseInt10 ident) = None \<Longrightarrow>
   download_entry E p UidType mb ident h =
     (Resolved \<lparr>r_id = ident, r_idType = UidType, r_mailbox = mb, r_found = False,
        r_uid = None, r_error = None, r_attachments = []\<rparr>, h)"
  by (simp add: download_entry_def download_try_def resolve_identifier_def await_def
      truthy_uid_def)

lemma uid_not_found_peek:
  "positive_or_null (parseInt10 ident) = None \<Longrightarrow>
   peek_entry E UidType mb ident h =
     (Resolved \<lparr>r_id = ident, r_idType = UidType, r_mailbox = mb, r_found = False,
        r_uid = None, r_error = None,
        p_subject = None, p_from = None, p_to = None, p_date = None,
        p_messageId = None, p_hasHtml = None, p_hasText = None,
        p_htmlSize = None, p_textSize = None,
        p_attachmentCount = 0, p_attachments = []\<rparr>, h)"
  by (simp add: peek_entry_def peek_try_def resolve_identifier_def await_def
      truthy_uid_def)

lemma invalid_id_rejected:
  "positive_or_null (parseInt10 ident) = None \<Longrightarrow>
   getMessageContent E ident fmt save mb h =
     (Rejected (Error (''Invalid message id: '' @ ident)), h)"
  by (auto simp: getMessageContent_def positive_or_null_def split: number.splits if_splits)

subsection \<open>The calls an operation adds to the history\<close>

lemma extends_refl: "extends_by P h h"
  by (simp add: extends_by_def)

lemma extends_step: "P c \<Longrightarrow> extends_by P h (h @ [c])"
  by (simp add: extends_by_def)

lemma extends_trans: "extends_by P h h1 \<Longrightarrow> extends_by P h1 h2 \<Longrightarrow> extends_by P h h2"
  by (auto simp: extends_by_def)

lemma extends_step2: "P c \<Longrightarrow> P d \<Longrightarrow> extends_by P h (h @ [c] @ [d])"
  by (simp add: extends_by_def)

lemma extends_weaken: "extends_by P h h' \<Longrightarrow> (\<And>c. P c \<Longrightarrow> Q c) \<Longrightarrow> extends_by Q h h'"
  by (auto simp: extends_by_def list_all_iff)

lemma extends_await:
  assumes "extends_by P h (snd r)" and "\<And>x h1. extends_by P h1 (snd (k x h1))"
  shows "extends_by P h (snd (await r k))"
proof (cases r)
  case (Pair out h1)
  with assms(1) have h1: "extends_by P h h1" by simp
  show ?thesis
  proof (cases out)
    case Pending
    with Pair h1 show ?thesis by (simp add: await_def)
  next
    case (Rejected e)
    with Pair h1 show ?thesis by (simp add: await_def)
  next
    case (Resolved x)
    with Pair have "await r k = k x h1" by (simp add: await_def)
    with extends_trans [OF h1 assms(2) [of h1 x]] show ?thesis by simp
  qed
qed

lemma search_extends:
  "P (Search header v) \<Longrightarrow> extends_by P h (snd (searchUidsByHeader E header v h))"
  by (auto simp: searchUidsByHeader_def Let_def extends_step split: sum.splits)

lemma search_candidates_extends:
  "(\<And>v. P (Search ''MESSAGE-ID'' v)) \<Longrightarrow> extends_by P h (snd (search_candidates E cs h))"
proof (induction cs arbitrary: h)
  case Nil
  then show ?case by (simp add: extends_refl)
next
  case (Cons c cs)
  have one: "extends_by P h (h @ [Search ''MESSAGE-ID'' c])"
    using Cons.prems by (simp add: extends_step)
  have rest: "extends_by P h (snd (search_candidates E cs (h @ [Search ''MESSAGE-ID'' c])))"
    using extends_trans [OF one Cons.IH] Cons.prems by simp
  from one rest show ?case
    by (auto simp: searchUidsByHeader_def Let_def split: sum.splits option.splits list.splits)
qed

lemma resolve_identifier_extends:
  "(\<And>v. P (Search ''MESSAGE-ID'' v)) \<Longrightarrow>
     extends_by P h (snd (resolve_identifier E idType ident h))"
  by (simp add: resolve_identifier_def resolveUidForMessageId_def extends_refl
      search_candidates_extends)

lemma fetch_extends:
  "P (Fetch u [] False False) \<Longrightarrow> extends_by P h (snd (fetchRawByUid E u h))"
  by (simp add: fetchRawByUid_def Let_def extends_step)

lemma predicate_extends:
  "(\<And>src flags name. P (RegExpTest src flags name)) \<Longrightarrow>
     extends_by P h (snd (attachment_predicate E p a h))"
  by (auto simp: attachment_predicate_def filename_checks_def Let_def extends_refl extends_step
      split: option.splits bool.splits prod.splits if_splits)

lemma filter_attachments_extends:
  "(\<And>src flags name. P (RegExpTest src flags name)) \<Longrightarrow>
     extends_by P h (snd (filter_attachments E p as h))"
proof (induction as arbitrary: h)
  case Nil
  then show ?case by (simp add: extends_refl)
next
  case (Cons a as)
  obtain keep h1 where a: "attachment_predicate E p a h = (keep, h1)"
    by (cases "attachment_predicate E p a h")
  obtain kept h2 where r: "filter_attachments E p as h1 = (kept, h2)"
    by (cases "filter_attachments E p as h1")
  have "extends_by P h h1"
    using predicate_extends [of P h E p a] Cons.prems a by simp
  moreover have "extends_by P h1 h2"
    using Cons.IH [of h1] Cons.prems r by simp
  ultimately show ?case
    using a r by (simp add: extends_trans)
qed

lemma write_attachment_extends:
  "P (RandomBytes 6) \<Longrightarrow> (\<And>path content. P (WriteFile path content)) \<Longrightarrow>
     extends_by P h (snd (writeAttachmentToTemp E content fname us h))"
  by (auto simp: writeAttachmentToTemp_def Let_def extends_by_def split: option.splits)

lemma place_attachment_extends:
  "P (RandomBytes 6) \<Longrightarrow> (\<And>path content. P (WriteFile path content)) \<Longrightarrow>
     extends_by P h (snd (place_attachment E u a h))"
  by (simp add: place_attachment_def Let_def extends_refl extends_await write_attachment_extends)

lemma place_attachments_extends:
  "P (RandomBytes 6) \<Longrightarrow> (\<And>path content. P (WriteFile path content)) \<Longrightarrow>
     extends_by P h (snd (place_attachments E u as acc h))"
proof (induction as arbitrary: acc h)
  case Nil
  then show ?case by (simp add: extends_refl)
next
  case (Cons a as)
  obtain out h1 where a: "place_attachment E u a h = (out, h1)"
    by (cases "place_attachment E u a h")
  have one: "extends_by P h h1"
    using place_attachment_extends [of P h E u a] Cons.prems a by simp
  show ?case
  proof (cases out)
    case Pending
    with a one show ?thesis by simp
  next
    case (Rejected e)
    with a one show ?thesis by simp
  next
    case (Resolved r)
    with a have "place_attachments E u (a # as) acc h = place_attachments E u as (acc @ [r]) h1"
      by simp
    with extends_trans [OF one Cons.IH [of h1 "acc @ [r]"]] Cons.prems show ?thesis by simp
  qed
qed


lemma download_try_extends:
  assumes "\<And>v. P (Search ''MESSAGE-ID'' v)" and "\<And>u. P (Fetch u [] False False)"
    and "\<And>src flags name. P (RegExpTest src flags name)"
    and "P (RandomBytes 6)" and "\<And>path content. P (WriteFile path content)"
  shows "extends_by P h (snd (download_try E p idType mb ident h))"
  unfolding download_try_def
proof (rule extends_await)
  show "extends_by P h (snd (resolve_identifier E idType ident h))"
    using assms(1) by (rule resolve_identifier_extends)
next
  fix uid0 h1
  show "extends_by P h1 (snd (case truthy_uid uid0 of
      None \<Rightarrow>
        (Resolved \<lparr>r_id = ident, r_idType = idType, r_mailbox = mb, r_found = False,
           r_uid = None, r_error = None, r_attachments = []\<rparr>, h1)
    | Some u \<Rightarrow>
        await (fetchRawByUid E u h1)
          (\<lambda>rawBuffer h2.
             case simpleParser E rawBuffer of
               Inl e \<Rightarrow> (Rejected e, h2)
             | Inr parsedMail \<Rightarrow>
                 (case filter_attachments E p (m_attachments parsedMail) h2 of
                    (matching, h3) \<Rightarrow>
                      await (place_attachments E u matching [] h3)
                        (\<lambda>processed h4.
                           (Resolved \<lparr>r_id = ident, r_idType = idType, r_mailbox = mb,
                              r_found = True, r_uid = Some (string_of_nat u),
                              r_error = None, r_attachments = processed\<rparr>, h4))))))"
  proof (cases "truthy_uid uid0")
    case None
    then show ?thesis by (simp add: extends_refl)
  next
    case (Some u)
    have "extends_by P h1 (snd (await (fetchRawByUid E u h1)
          (\<lambda>rawBuffer h2.
             case simpleParser E rawBuffer of
               Inl e \<Rightarrow> (Rejected e, h2)
             | Inr parsedMail \<Rightarrow>
                 (case filter_attachments E p (m_attachments parsedMail) h2 of
                    (matching, h3) \<Rightarrow>
                      await (place_attachments E u matching [] h3)
                        (\<lambda>processed h4.
                           (Resolved \<lparr>r_id = ident, r_idType = idType, r_mailbox = mb,
                              r_found = True, r_uid = Some (string_of_nat u),
                              r_error = None, r_attachments = processed\<rparr>, h4))))))"
    proof (rule extends_await)
      show "extends_by P h1 (snd (fetchRawByUid E u h1))"
        using assms(2) by (rule fetch_extends)
    next
      fix rawBuffer h2
      show "extends_by P h2 (snd (case simpleParser E rawBuffer of
               Inl e \<Rightarrow> (Rejected e, h2)
             | Inr parsedMail \<Rightarrow>
                 (case filter_attachments E p (m_attachments parsedMail) h2 of
                    (matching, h3) \<Rightarrow>
                      await (place_attachments E u matching [] h3)
                        (\<lambda>processed h4.
                           (Resolved \<lparr>r_id = ident, r_idType = idType, r_mailbox = mb,
                              r_found = True, r_uid = Some (string_of_nat u),
                              r_error = None, r_attachments = processed\<rparr>, h4)))))"
      proof (cases "simpleParser E rawBuffer")
        case (Inl e)
        then show ?thesis by (simp add: extends_refl)
      next
        case (Inr parsedMail)
        obtain matching h3 where f: "filter_attachments E p (m_attachments parsedMail) h2 = (matching, h3)"
          by (cases "filter_attachments E p (m_attachments parsedMail) h2")
        have a: "extends_by P h2 h3"
          using filter_attachments_extends [of P h2 E p "m_attachments parsedMail"] assms(3) f
          by simp
        have b: "extends_by P h3 (snd (await (place_attachments E u matching [] h3)
                        (\<lambda>processed h4.
                           (Resolved \<lparr>r_id = ident, r_idType = idType, r_mailbox = mb,
                              r_found = True, r_uid = Some (string_of_nat u),
                              r_error = None, r_attachments = processed\<rparr>, h4))))"
          by (rule extends_await)
            (simp_all add: place_attachments_extends assms(4) assms(5) extends_refl)
        from extends_trans [OF a b] Inr f show ?thesis by simp
      qed
    qed
    with Some show ?thesis by simp
  qed
qed

lemma snd_catch:
  "snd (case r of (Rejected e, h1) \<Rightarrow> (f e, h1) | other \<Rightarrow> other) = snd r"
  by (cases r) (auto split: outcome.splits)

lemma download_entry_extends:
  assumes "\<And>v. P (Search ''MESSAGE-ID'' v)" and "\<And>u. P (Fetch u [] False False)"
    and "\<And>src flags name. P (RegExpTest src flags name)"
    and "P (RandomBytes 6)" and "\<And>path content. P (WriteFile path content)"
  shows "extends_by P h (snd (download_entry E p idType mb ident h))"
  unfolding download_entry_def snd_catch
  using assms by (rule download_try_extends)

lemma run_download_extends:
  assumes "\<And>v. P (Search ''MESSAGE-ID'' v)" and "\<And>u. P (Fetch u [] False False)"
    and "\<And>src flags name. P (RegExpTest src flags name)"
    and "P (RandomBytes 6)" and "\<And>path content. P (WriteFile path content)"
  shows "extends_by P h (snd (run_download E p idType mb ids acc h))"
proof (induction ids arbitrary: acc h)
  case Nil
  then show ?case by (simp add: extends_refl)
next
  case (Cons ident ids)
  obtain out h1 where a: "download_entry E p idType mb ident h = (out, h1)"
    by (cases "download_entry E p idType mb ident h")
  have one: "extends_by P h h1"
    using download_entry_extends [of P h E p idType mb ident, OF assms] a by simp
  show ?case
  proof (cases out)
    case Pending
    with a one show ?thesis by simp
  next
    case (Rejected e)
    with a one show ?thesis by simp
  next
    case (Resolved r)
    with a extends_trans [OF one Cons.IH [of h1 "acc @ [r]"]] show ?thesis by simp
  qed
qed

lemma with_session_extends:
  assumes "P Connect" and "P (OpenBox mb True)" and "P EndConnection"
    and "\<And>h1. extends_by P h1 (snd (run h1))"
  shows "extends_by P h (snd (with_session E mb run h))"
proof -
  let ?h2 = "h @ [Connect] @ [OpenBox mb True]"
  have a: "extends_by P h (h @ [Connect])" using assms(1) by (rule extends_step)
  have b: "extends_by P h ?h2" using assms(1,2) by (rule extends_step2)
  have c: "extends_by P h (snd (run ?h2))" using extends_trans [OF b assms(4)] .
  have "extends_by P (snd (run ?h2)) (snd (run ?h2) @ [EndConnection])"
    using assms(3) by (rule extends_step)
  with c have d: "extends_by P h (snd (run ?h2) @ [EndConnection])"
    by (rule extends_trans)
  from a b c d show ?thesis
    by (auto simp: with_session_def Let_def split: option.splits outcome.splits prod.splits)
qed

lemma downloadAttachments_extends:
  assumes "\<And>v. P (Search ''MESSAGE-ID'' v)" and "\<And>u. P (Fetch u [] False False)"
    and "\<And>src flags name. P (RegExpTest src flags name)"
    and "P (RandomBytes 6)" and "\<And>path content. P (WriteFile path content)"
    and "P Connect" and "P (OpenBox mb True)" and "P EndConnection"
  shows "extends_by P h (snd (downloadAttachments E messageIds idType flt mb h))"
proof (cases "buildAttachmentPredicate E flt")
  case (Inl e)
  then show ?thesis by (simp add: downloadAttachments_def extends_refl)
next
  case (Inr p)
  have "extends_by P h (snd (with_session E mb
      (run_download E p idType mb (normalizeMessageIds messageIds) []) h))"
    using assms(6,7,8) run_download_extends [of P _ E p idType mb, OF assms(1-5)]
    by (rule with_session_extends)
  with Inr show ?thesis by (simp add: downloadAttachments_def)
qed


lemma peek_try_extends:
  assumes "\<And>v. P (Search ''MESSAGE-ID'' v)" and "\<And>u. P (Fetch u [] False False)"
  shows "extends_by P h (snd (peek_try E idType mb ident h))"
  unfolding peek_try_def
  by (intro extends_await resolve_identifier_extends assms)
    (auto simp: extends_refl Let_def intro!: extends_await fetch_extends assms
      split: option.splits sum.splits)

lemma peek_entry_extends:
  assumes "\<And>v. P (Search ''MESSAGE-ID'' v)" and "\<And>u. P (Fetch u [] False False)"
  shows "extends_by P h (snd (peek_entry E idType mb ident h))"
  unfolding peek_entry_def snd_catch
  using assms by (rule peek_try_extends)

lemma run_peek_extends:
  assumes "\<And>v. P (Search ''MESSAGE-ID'' v)" and "\<And>u. P (Fetch u [] False False)"
  shows "extends_by P h (snd (run_peek E idType mb ids acc h))"
proof (induction ids arbitrary: acc h)
  case Nil
  then show ?case by (simp add: extends_refl)
next
  case (Cons ident ids)
  obtain out h1 where a: "peek_entry E idType mb ident h = (out, h1)"
    by (cases "peek_entry E idType mb ident h")
  have one: "extends_by P h h1"
    using peek_entry_extends [of P h E idType mb ident, OF assms] a by simp
  show ?case
  proof (cases out)
    case Pending
    with a one show ?thesis by simp
  next
    case (Rejected e)
    with a one show ?thesis by simp
  next
    case (Resolved r)
    with a extends_trans [OF one Cons.IH [of h1 "acc @ [r]"]] show ?thesis by simp
  qed
qed

lemma peekMessages_extends:
  assumes "\<And>v. P (Search ''MESSAGE-ID'' v)" and "\<And>u. P (Fetch u [] False False)"
    and "P Connect" and "P (OpenBox mb True)" and "P EndConnection"
  shows "extends_by P h (snd (peekMessages E messageIds idType mb h))"
  unfolding peekMessages_def Let_def
  using assms(3,4,5) run_peek_extends [of P _ E idType mb, OF assms(1,2)]
  by (rule with_session_extends)

lemma write_raw_extends:
  "P (RandomBytes 6) \<Longrightarrow> (\<And>path content. P (WriteFile path content)) \<Longrightarrow>
     extends_by P h (snd (writeRawToTemp E raw u h))"
  by (auto simp: writeRawToTemp_def Let_def extends_by_def split: option.splits)

lemma finalize_extends:
  assumes "P (RandomBytes 6)" and "\<And>path content. P (WriteFile path content)"
  shows "extends_by P h (snd (finalize E ident u fmt save mb fm chs h))"
  unfolding finalize_def
  by (auto simp: extends_refl Let_def intro!: extends_await write_raw_extends assms
      split: sum.splits prod.splits)

lemma content_handler_extends:
  assumes "P (RandomBytes 6)" and "\<And>path content. P (WriteFile path content)"
    and "P EndConnection"
  shows "extends_by P (c_history s) (c_history (content_handler E ident u fmt save mb s ev))"
proof (cases ev)
  case EndEv
  show ?thesis
  proof (cases "c_end_armed s")
    case True
    have a: "extends_by P (c_history s) (c_history s @ [EndConnection])"
      using assms(3) by (rule extends_step)
    have b: "extends_by P (c_history s @ [EndConnection])
        (snd (finalize E ident u fmt save mb (foundMessage s) (rawChunks s)
          (c_history s @ [EndConnection])))"
      using assms(1,2) by (rule finalize_extends)
    from extends_trans [OF a b] True EndEv show ?thesis
      by (auto simp: content_handler_def split: prod.splits)
  next
    case False
    with EndEv show ?thesis by (simp add: content_handler_def extends_refl)
  qed
qed (simp_all add: content_handler_def extends_refl)

lemma content_fold_extends:
  assumes "P (RandomBytes 6)" and "\<And>path content. P (WriteFile path content)"
    and "P EndConnection"
  shows "extends_by P (c_history s)
     (c_history (foldl (content_handler E ident u fmt save mb) s evs))"
proof (induction evs arbitrary: s)
  case Nil
  then show ?case by (simp add: extends_refl)
next
  case (Cons ev evs)
  from extends_trans [OF content_handler_extends [of P s E ident u fmt save mb ev, OF assms]
      Cons.IH [of "content_handler E ident u fmt save mb s ev"]]
  show ?case by simp
qed

lemma getMessageContent_extends:
  assumes "P (RandomBytes 6)" and "\<And>path content. P (WriteFile path content)"
    and "P EndConnection" and "P Connect" and "P (OpenBox mb True)"
    and "\<And>u. P (Fetch u [] False False)"
  shows "extends_by P h (snd (getMessageContent E ident fmt save mb h))"
proof (cases "positive_or_null (parseInt10 ident)")
  case None
  then have "getMessageContent E ident fmt save mb h =
      (Rejected (Error (''Invalid message id: '' @ ident)), h)"
    by (auto simp: getMessageContent_def positive_or_null_def split: number.splits if_splits)
  then show ?thesis by (simp add: extends_refl)
next
  case (Some u)
  then obtain v where v: "parseInt10 ident = Finite v" "0 < v"
    by (auto simp: positive_or_null_def split: number.splits if_splits)
  let ?h3 = "h @ [Connect] @ [OpenBox mb True] @ [Fetch (nat v) [] False False]"
  let ?s0 = "\<lparr>rawChunks = [], foundMessage = False, c_promise = Pending,
      c_error_armed = True, c_end_armed = True, c_history = ?h3\<rparr>"
  have a: "extends_by P h (h @ [Connect])" using assms(4) by (rule extends_step)
  have b: "extends_by P h (h @ [Connect] @ [OpenBox mb True])"
    using assms(4,5) by (rule extends_step2)
  have "extends_by P (h @ [Connect] @ [OpenBox mb True]) ?h3"
    using extends_step [of P "Fetch (nat v) [] False False" "h @ [Connect] @ [OpenBox mb True]"]
      assms(6) by simp
  with b have c: "extends_by P h ?h3" by (rule extends_trans)
  have "extends_by P (c_history ?s0)
      (c_history (foldl (content_handler E ident (nat v) fmt save mb) ?s0 (on_fetch E ?h3)))"
    using assms(1,2,3) by (rule content_fold_extends)
  with c have d: "extends_by P h
      (c_history (foldl (content_handler E ident (nat v) fmt save mb) ?s0 (on_fetch E ?h3)))"
    using extends_trans by simp
  from a b d v show ?thesis
    by (auto simp: getMessageContent_def Let_def split: option.splits)
qed

lemma peek_call_store:
  "list_all peek_call t \<Longrightarrow> seen (store_after st t) = seen st"
proof (induction t arbitrary: st)
  case Nil
  then show ?case by (simp add: store_after_def)
next
  case (Cons c t)
  from Cons.prems have "seen (store_step st c) = seen st"
    by (cases c) (simp_all add: store_step_def peek_call_def)
  with Cons show ?case by (simp add: store_after_def)
qed

lemma extends_peek_store:
  "extends_by peek_call h h' \<Longrightarrow> seen (store_after st h') = seen (store_after st h)"
  using peek_call_store [of _ "store_after st h"]
  by (auto simp: extends_by_def store_after_def)


subsection \<open>One record per identifier\<close>













lemma await_Resolved:
  "await r k = (Resolved y, h') \<Longrightarrow> \<exists>x h1. r = (Resolved x, h1) \<and> k x h1 = (Resolved y, h')"
  by (cases r) (auto simp: await_def split: outcome.splits)










lemma with_session_open:
  assumes "on_connect E (h @ [Connect]) = None"
    and "on_openBox E (h @ [Connect, OpenBox mb True]) = None"
  shows "with_session E mb run h =
     (case run (h @ [Connect, OpenBox mb True]) of
        (Resolved results, h3) \<Rightarrow> (Resolved results, h3 @ [EndConnection])
      | (Rejected runError, h3) \<Rightarrow> (Rejected runError, h3 @ [EndConnection])
      | (Pending, h3) \<Rightarrow> (Pending, h3))"
  using assms by (simp add: with_session_def Let_def)





text \<open>
  Claim C2, as the specification states it, has every \<open>uid\<close> identifier that is not
  numeric resolve to not-found without any store access. The code takes the handle from
  \<open>parseInt\<close>, which reads a leading numeral and ignores what follows: \<open>12abc\<close> is not a
  numeral, yet it resolves to handle 12, the message is fetched and the record says
  \<open>found: true\<close>.
\<close>

theorem uid_with_trailing_text_counterexample:
  "decimal_numeral ''12abc'' = None
   \<and> snd (download_entry mailbox_env None UidType ''INBOX'' ''12abc'' [])
       = [Fetch 12 [] False False, RandomBytes 6,
          WriteFile ''/tmp/000000000000-report.pdf'' [0x25, 0x50, 0x44, 0x46]]
   \<and> (case fst (download_entry mailbox_env None UidType ''INBOX'' ''12abc'' []) of
         Resolved r \<Rightarrow> r_found r \<and> r_uid r = Some ''12''
       | _ \<Rightarrow> False)"
  by code_simp

text \<open>
  Claim C2, amended. A \<open>uid\<close> identifier resolves to not-found, with no call to any
  collaborator (the history is returned unchanged, so no search and no fetch is issued),
  whenever \<open>parseInt\<close> reads no positive finite number from it; the record is the plain
  not-found record, without an error. That is the case when, after leading white space
  and one optional sign, the identifier does not begin with a digit, and when the
  identifier is a decimal numeral denoting zero or a negative integer. Characters after
  a leading numeral are ignored.
\<close>

theorem uid_without_positive_numeral_is_not_found:
  "(positive_or_null (parseInt10 ident) = None \<longrightarrow>
      download_entry E p UidType mb ident h =
        (Resolved \<lparr>r_id = ident, r_idType = UidType, r_mailbox = mb, r_found = False,
           r_uid = None, r_error = None, r_attachments = []\<rparr>, h)
      \<and> peek_entry E UidType mb ident h =
        (Resolved \<lparr>r_id = ident, r_idType = UidType, r_mailbox = mb, r_found = False,
           r_uid = None, r_error = None,
           p_subject = None, p_from = None, p_to = None, p_date = None,
           p_messageId = None, p_hasHtml = None, p_hasText = None,
           p_htmlSize = None, p_textSize = None,
           p_attachmentCount = 0, p_attachments = []\<rparr>, h))
   \<and> (\<not> has_leading_digit ident \<longrightarrow> positive_or_null (parseInt10 ident) = None)
   \<and> (\<forall>v. decimal_numeral ident = Some v \<and> v \<le> 0
         \<longrightarrow> positive_or_null (parseInt10 ident) = None)"
proof -
  have a: "\<not> has_leading_digit ident \<longrightarrow> positive_or_null (parseInt10 ident) = None"
    by (simp add: no_leading_digit_NaN positive_or_null_def)
  have b: "\<forall>v. decimal_numeral ident = Some v \<and> v \<le> 0
      \<longrightarrow> positive_or_null (parseInt10 ident) = None"
    using nonpositive_numeral_null by blast
  from a b show ?thesis
    using uid_not_found_download [of ident E p mb h] uid_not_found_peek [of ident E mb h]
    by blast
qed

text \<open>The amended claim at the identifiers \<open>0\<close> (a numeral that is not positive) and
  \<open>abc\<close> (no leading digit): not found, and the history stays empty.\<close>

theorem uid_without_positive_numeral_is_not_found_witness:
  "download_entry quiet_env None UidType ''INBOX'' ''0'' [] =
     (Resolved \<lparr>r_id = ''0'', r_idType = UidType, r_mailbox = ''INBOX'', r_found = False,
        r_uid = None, r_error = None, r_attachments = []\<rparr>, [])
   \<and> download_entry quiet_env None UidType ''INBOX'' ''abc'' [] =
     (Resolved \<lparr>r_id = ''abc'', r_idType = UidType, r_mailbox = ''INBOX'', r_found = False,
        r_uid = None, r_error = None, r_attachments = []\<rparr>, [])"
proof -
  note zero = uid_without_positive_numeral_is_not_found
    [of "''0''" quiet_env None "''INBOX''" "[]"]
  note abc = uid_without_positive_numeral_is_not_found
    [of "''abc''" quiet_env None "''INBOX''" "[]"]
  have "decimal_numeral ''0'' = Some 0 \<and> (0::int) \<le> 0"
    by code_simp
  with zero [THEN conjunct2, THEN conjunct2, rule_format, of 0]
  have "positive_or_null (parseInt10 ''0'') = None" .
  with zero [THEN conjunct1]
  have one: "download_entry quiet_env None UidType ''INBOX'' ''0'' [] =
     (Resolved \<lparr>r_id = ''0'', r_idType = UidType, r_mailbox = ''INBOX'', r_found = False,
        r_uid = None, r_error = None, r_attachments = []\<rparr>, [])"
    by simp
  have "\<not> has_leading_digit ''abc''"
    by code_simp
  with abc [THEN conjunct2, THEN conjunct1]
  have "positive_or_null (parseInt10 ''abc'') = None" by simp
  with abc [THEN conjunct1]
  have two: "download_entry quiet_env None UidType ''INBOX'' ''abc'' [] =
     (Resolved \<lparr>r_id = ''abc'', r_idType = UidType, r_mailbox = ''INBOX'', r_found = False,
        r_uid = None, r_error = None, r_attachments = []\<rparr>, [])"
    by simp
  from one two show ?thesis ..
qed

subsection \<open>Retrieval never marks a message read\<close>

text \<open>
  Claim C8. Every call that \<open>downloadAttachments\<close>, \<open>peekMessages\<close> and
  \<open>getMessageContent\<close> add to the history is a call that cannot mark a message read: each
  fetch asks for the whole body with \<open>markSeen\<close> off, and each mailbox is opened
  read-only. So the seen flags of the store after the operation are those before it, for
  any store and any earlier history, and so also after peeking the same identifiers
  twice in succession.
\<close>

theorem retrieval_leaves_seen_flags:
  "extends_by peek_call h (snd (downloadAttachments E messageIds idType flt mb h))
   \<and> extends_by peek_call h (snd (peekMessages E messageIds idType mb h))
   \<and> extends_by peek_call h (snd (getMessageContent E ident fmt saveRawToFile mb h))
   \<and> seen (store_after st (snd (downloadAttachments E messageIds idType flt mb h)))
       = seen (store_after st h)
   \<and> seen (store_after st (snd (peekMessages E messageIds idType mb h)))
       = seen (store_after st h)
   \<and> seen (store_after st (snd (getMessageContent E ident fmt saveRawToFile mb h)))
       = seen (store_after st h)
   \<and> seen (store_after st
        (snd (peekMessages E messageIds idType mb (snd (peekMessages E messageIds idType mb h)))))
       = seen (store_after st h)"
proof -
  have d: "extends_by peek_call h (snd (downloadAttachments E messageIds idType flt mb h))"
    by (rule downloadAttachments_extends) (simp_all add: peek_call_def)
  have k: "\<And>h0. extends_by peek_call h0 (snd (peekMessages E messageIds idType mb h0))"
    by (rule peekMessages_extends) (simp_all add: peek_call_def)
  have g: "extends_by peek_call h (snd (getMessageContent E ident fmt saveRawToFile mb h))"
    by (rule getMessageContent_extends) (simp_all add: peek_call_def)
  have kk: "extends_by peek_call h
      (snd (peekMessages E messageIds idType mb (snd (peekMessages E messageIds idType mb h))))"
    using k [of h] k [of "snd (peekMessages E messageIds idType mb h)"] by (rule extends_trans)
  from d k [of h] g kk show ?thesis
    by (simp add: extends_peek_store)
qed

text \<open>Claim C8 at a peek of handle 5, then a download of the same handle, in a mailbox
  none of whose messages was read: the two operations issue their fetches, and
  afterwards still no message is marked read.\<close>

theorem retrieval_leaves_seen_flags_witness:
  "snd (peekMessages mailbox_env (OneId ''5'') UidType ''INBOX'' [])
     = [Connect, OpenBox ''INBOX'' True, Fetch 5 [] False False, EndConnection]
   \<and> seen (store_after \<lparr>read_only = False, seen = {}\<rparr>
        (snd (downloadAttachments mailbox_env (OneId ''5'') UidType None ''INBOX''
               (snd (peekMessages mailbox_env (OneId ''5'') UidType ''INBOX'' []))))) = {}"
proof -
  let ?st = "\<lparr>read_only = False, seen = {}\<rparr>"
  let ?h = "snd (peekMessages mailbox_env (OneId ''5'') UidType ''INBOX'' [])"
  have one: "?h = [Connect, OpenBox ''INBOX'' True, Fetch 5 [] False False, EndConnection]"
    by code_simp
  from retrieval_leaves_seen_flags [of "[]" mailbox_env "OneId ''5''" UidType None "''INBOX''"
      "''5''" FormatRaw False ?st]
  have "seen (store_after ?st ?h) = seen (store_after ?st [])"
    by simp
  moreover
  from retrieval_leaves_seen_flags [of ?h mailbox_env "OneId ''5''" UidType None "''INBOX''"
      "''5''" FormatRaw False ?st]
  have "seen (store_after ?st
      (snd (downloadAttachments mailbox_env (OneId ''5'') UidType None ''INBOX'' ?h)))
      = seen (store_after ?st ?h)"
    by simp
  ultimately have "seen (store_after ?st
      (snd (downloadAttachments mailbox_env (OneId ''5'') UidType None ''INBOX'' ?h))) = {}"
    by (simp add: store_after_def)
  with one show ?thesis by simp
qed

subsection \<open>The single-message operation takes handles only\<close>

lemma valid_id_connects:
  assumes "positive_or_null (parseInt10 ident) = Some u"
  shows "(\<exists>t. snd (getMessageContent E ident fmt save mb h) = h @ Connect # t)
    \<and> (on_connect E (h @ [Connect]) = None
         \<and> on_openBox E (h @ [Connect, OpenBox mb True]) = None \<longrightarrow>
       (\<exists>t. snd (getMessageContent E ident fmt save mb h)
               = h @ [Connect, OpenBox mb True, Fetch u [] False False] @ t))"
proof -
  from assms obtain v where v: "parseInt10 ident = Finite v" "0 < v" "u = nat v"
    by (auto simp: positive_or_null_def split: number.splits if_splits)
  let ?h3 = "h @ [Connect] @ [OpenBox mb True] @ [Fetch u [] False False]"
  let ?s0 = "\<lparr>rawChunks = [], foundMessage = False, c_promise = Pending,
      c_error_armed = True, c_end_armed = True, c_history = ?h3\<rparr>"
  have "extends_by (\<lambda>c. True) (c_history ?s0)
      (c_history (foldl (content_handler E ident u fmt save mb) ?s0 (on_fetch E ?h3)))"
    by (rule content_fold_extends) simp_all
  then obtain t where
    t: "c_history (foldl (content_handler E ident u fmt save mb) ?s0 (on_fetch E ?h3)) = ?h3 @ t"
    by (auto simp: extends_by_def)
  from v t show ?thesis
    by (auto simp: getMessageContent_def Let_def split: option.splits)
qed

text \<open>
  Claim C10, as the specification states it, has the operation throw for every
  identifier that is not a positive base-10 integer. The code takes the handle from
  \<open>parseInt\<close>, which reads a leading numeral and ignores what follows: \<open>12@host\<close> is not a
  numeral, yet the operation connects, opens the mailbox, fetches handle 12 and returns
  its content.
\<close>

theorem identifier_with_trailing_text_is_fetched_counterexample:
  "decimal_numeral ''12@host'' = None
   \<and> getMessageContent mailbox_env ''12@host'' FormatRaw False ''INBOX'' []
     = (Resolved \<lparr>c_id = ''12@host'', c_format = FormatRaw, c_body = [1],
          c_mailbox = ''INBOX'', c_rawFilePath = None, c_rawSize = None,
          c_hasHtml = None, c_hasText = None\<rparr>,
        [Connect, OpenBox ''INBOX'' True, Fetch 12 [] False False, EndConnection])"
  by code_simp

text \<open>
  Claim C10, amended. \<open>getMessageContent\<close> parses its identifier with \<open>parseInt\<close> in base
  10. When that gives no positive finite number, the operation rejects with
  \<open>Invalid message id\<close> followed by the identifier, and the history is returned unchanged:
  no connection was made. That is so for every identifier that, after leading white
  space and one optional sign, does not begin with a digit, a bracketed Message-ID among
  them, and for every decimal numeral that denotes zero or a negative integer. When
  \<open>parseInt\<close> gives the positive number \<open>u\<close>, whatever follows the leading numeral, the
  operation connects, and once the connection and the mailbox are open it fetches the
  handle \<open>u\<close>. On every path the calls the operation adds contain no header search, so a
  Message-ID is never resolved here.
\<close>

theorem getMessageContent_rejects_what_parseInt_rejects:
  "(positive_or_null (parseInt10 ident) = None \<longrightarrow>
      getMessageContent E ident fmt saveRawToFile mb h =
        (Rejected (Error (''Invalid message id: '' @ ident)), h))
   \<and> (\<not> has_leading_digit ident \<longrightarrow> positive_or_null (parseInt10 ident) = None)
   \<and> (\<forall>v. decimal_numeral ident = Some v \<and> v \<le> 0
         \<longrightarrow> positive_or_null (parseInt10 ident) = None)
   \<and> (\<forall>u. positive_or_null (parseInt10 ident) = Some u \<longrightarrow>
         (\<exists>t. snd (getMessageContent E ident fmt saveRawToFile mb h) = h @ Connect # t)
         \<and> (on_connect E (h @ [Connect]) = None
              \<and> on_openBox E (h @ [Connect, OpenBox mb True]) = None \<longrightarrow>
            (\<exists>t. snd (getMessageContent E ident fmt saveRawToFile mb h)
                    = h @ [Connect, OpenBox mb True, Fetch u [] False False] @ t)))
   \<and> extends_by (\<lambda>c. \<not> is_search c) h (snd (getMessageContent E ident fmt saveRawToFile mb h))"
proof -
  have a: "\<not> has_leading_digit ident \<longrightarrow> positive_or_null (parseInt10 ident) = None"
    by (simp add: no_leading_digit_NaN positive_or_null_def)
  have b: "\<forall>v. decimal_numeral ident = Some v \<and> v \<le> 0
      \<longrightarrow> positive_or_null (parseInt10 ident) = None"
    using nonpositive_numeral_null by blast
  have c: "\<forall>u. positive_or_null (parseInt10 ident) = Some u \<longrightarrow>
         (\<exists>t. snd (getMessageContent E ident fmt saveRawToFile mb h) = h @ Connect # t)
         \<and> (on_connect E (h @ [Connect]) = None
              \<and> on_openBox E (h @ [Connect, OpenBox mb True]) = None \<longrightarrow>
            (\<exists>t. snd (getMessageContent E ident fmt saveRawToFile mb h)
                    = h @ [Connect, OpenBox mb True, Fetch u [] False False] @ t))"
    using valid_id_connects [of ident _ E fmt saveRawToFile mb h] by blast
  have d: "extends_by (\<lambda>c. \<not> is_search c) h
      (snd (getMessageContent E ident fmt saveRawToFile mb h))"
    by (rule getMessageContent_extends) (simp_all add: is_search_def)
  from a b c d show ?thesis
    using invalid_id_rejected [of ident E fmt saveRawToFile mb h] by blast
qed

text \<open>The amended claim at the Message-ID \<open><a@b>\<close> and at the numeral \<open>-3\<close>, both
  rejected before any call is made, and at \<open>7 \<close> with a trailing space in the sample
  mailbox, where handle 7 is fetched.\<close>

theorem getMessageContent_rejects_what_parseInt_rejects_witness:
  "getMessageContent quiet_env ''<a@b>'' FormatHtml False ''INBOX'' [] =
     (Rejected (Error ''Invalid message id: <a@b>''), [])
   \<and> getMessageContent quiet_env ''-3'' FormatHtml False ''INBOX'' [] =
     (Rejected (Error ''Invalid message id: -3''), [])
   \<and> (\<exists>t. snd (getMessageContent mailbox_env ''7 '' FormatRaw False ''INBOX'' [])
            = [Connect, OpenBox ''INBOX'' True, Fetch 7 [] False False] @ t)"
proof -
  note bracketed = getMessageContent_rejects_what_parseInt_rejects
    [of "''<a@b>''" quiet_env FormatHtml False "''INBOX''" "[]"]
  note negative = getMessageContent_rejects_what_parseInt_rejects
    [of "''-3''" quiet_env FormatHtml False "''INBOX''" "[]"]
  note seven = getMessageContent_rejects_what_parseInt_rejects
    [of "''7 ''" mailbox_env FormatRaw False "''INBOX''" "[]"]
  have "\<not> has_leading_digit ''<a@b>''"
    by code_simp
  with bracketed have one: "getMessageContent quiet_env ''<a@b>'' FormatHtml False ''INBOX'' [] =
     (Rejected (Error ''Invalid message id: <a@b>''), [])"
    by simp
  have "decimal_numeral ''-3'' = Some (- 3) \<and> (- 3 :: int) \<le> 0"
    by code_simp
  with negative [THEN conjunct2, THEN conjunct2, THEN conjunct1, rule_format, of "- 3"]
  have "positive_or_null (parseInt10 ''-3'') = None" .
  with negative [THEN conjunct1]
  have two: "getMessageContent quiet_env ''-3'' FormatHtml False ''INBOX'' [] =
     (Rejected (Error ''Invalid message id: -3''), [])"
    by simp
  have p: "positive_or_null (parseInt10 ''7 '') = Some 7"
    by code_simp
  have o: "on_connect mailbox_env ([] @ [Connect]) = None
      \<and> on_openBox mailbox_env ([] @ [Connect, OpenBox ''INBOX'' True]) = None"
    by (simp add: mailbox_env_def quiet_env_def)
  from seven [THEN conjunct2, THEN conjunct2, THEN conjunct2, THEN conjunct1, rule_format,
      OF p, THEN conjunct2, rule_format, OF o]
  have three: "\<exists>t. snd (getMessageContent mailbox_env ''7 '' FormatRaw False ''INBOX'' [])
            = [Connect, OpenBox ''INBOX'' True, Fetch 7 [] False False] @ t"
    by simp
  from one two three show ?thesis by blast
qed

subsection \<open>Closing the connection\<close>

lemma session_closed_once_mailbox_opened:
  assumes "on_connect E (h @ [Connect]) = None"
    and "on_openBox E (h @ [Connect, OpenBox mb True]) = None"
    and "fst (with_session E mb run h) \<noteq> Pending"
  shows "last (snd (with_session E mb run h)) = EndConnection"
  using assms(3) unfolding with_session_open [OF assms(1,2)]
  by (cases "run (h @ [Connect, OpenBox mb True])") (auto split: outcome.splits)

text \<open>
  Claim C9 fails on the code where the mailbox cannot be opened: the callback of
  \<open>openBox\<close> rejects and returns, and \<open>imap.end()\<close> is called only in the \<open>then\<close> and the
  \<open>catch\<close> of \<open>run()\<close>. With a store that refuses the mailbox, both batch operations reject
  and the history ends with the \<open>openBox\<close> call: the connection is never ended.
\<close>

theorem connection_left_open_when_mailbox_fails:
  "downloadAttachments closed_mailbox_env (OneId ''5'') UidType None ''NoSuchBox'' []
     = (Rejected (Error ''Mailbox does not exist''), [Connect, OpenBox ''NoSuchBox'' True])
   \<and> peekMessages closed_mailbox_env (OneId ''5'') UidType ''NoSuchBox'' []
     = (Rejected (Error ''Mailbox does not exist''), [Connect, OpenBox ''NoSuchBox'' True])"
  by code_simp

subsection \<open>Placement\<close>

lemma filter_no_filter: "filter_attachments E None atts h = (atts, h)"
  by (induction atts arbitrary: h) (simp_all add: attachment_predicate_def)

lemma shouldInline_iff:
  "shouldInlineTextAttachment ctype content
     \<longleftrightarrow> eligible_family ctype \<and> length (toString_utf8 content) < 1000"
  by (auto simp: shouldInlineTextAttachment_def eligible_family_def Let_def)

lemma place_inline:
  assumes "shouldInlineTextAttachment (declared_type a) (a_content a)"
  shows "\<exists>r. place_attachment E u a h = (Resolved r, h)
     \<and> t_inlineContent r = Some (toString_utf8 (a_content a)) \<and> t_savedTo r = None"
  using assms by (simp add: place_attachment_def declared_type_def Let_def)

lemma place_materialized:
  assumes "\<not> shouldInlineTextAttachment (declared_type a) (a_content a)"
  shows "\<exists>path. snd (place_attachment E u a h) = h @ [RandomBytes 6, WriteFile path (a_content a)]
     \<and> (case on_writeFile E (h @ [RandomBytes 6, WriteFile path (a_content a)]) of
          None \<Rightarrow> (\<exists>r. fst (place_attachment E u a h) = Resolved r
                    \<and> t_savedTo r = Some path \<and> t_inlineContent r = None)
        | Some err \<Rightarrow> fst (place_attachment E u a h) = Rejected err)"
  using assms
  by (auto simp: place_attachment_def declared_type_def Let_def writeAttachmentToTemp_def
      await_def split: option.splits)

lemma pdf_not_eligible: "\<not> eligible_family ''application/pdf''"
  by code_simp

lemma text_plain_eligible: "eligible_family ''text/plain''"
  by code_simp

lemma place_attachment_placed:
  assumes "place_attachment E u a h = (Resolved r, h1)"
  shows "placed_by_policy h1 a r"
  using assms
  by (auto simp: place_attachment_def declared_type_def Let_def writeAttachmentToTemp_def
      await_def placed_by_policy_def inline_by_policy_def shouldInline_iff
      split: if_splits option.splits)

lemma placed_later:
  assumes "placed_by_policy h a r" and "extends_by P h h'"
  shows "placed_by_policy h' a r"
  using assms by (auto simp: placed_by_policy_def extends_by_def split: option.splits if_splits)

lemma all_placed_later:
  assumes "list_all2 (placed_by_policy h) atts rs" and "extends_by P h h'"
  shows "list_all2 (placed_by_policy h') atts rs"
  using assms(1) placed_later [OF _ assms(2)] by (rule list_all2_mono)

lemma place_attachments_placed:
  assumes "place_attachments E u atts acc h = (Resolved rs, H)"
  shows "\<exists>new. rs = acc @ new \<and> list_all2 (placed_by_policy H) atts new"
  using assms
proof (induction atts arbitrary: acc h)
  case Nil
  then show ?case by simp
next
  case (Cons a atts)
  from Cons.prems obtain r h1 where a: "place_attachment E u a h = (Resolved r, h1)"
    and rest: "place_attachments E u atts (acc @ [r]) h1 = (Resolved rs, H)"
    by (cases "place_attachment E u a h") (auto split: outcome.splits)
  from Cons.IH [OF rest] obtain new where
    new: "rs = (acc @ [r]) @ new" "list_all2 (placed_by_policy H) atts new"
    by blast
  have "extends_by (\<lambda>c. True) h1 (snd (place_attachments E u atts (acc @ [r]) h1))"
    by (rule place_attachments_extends) simp_all
  with rest have "extends_by (\<lambda>c. True) h1 H" by simp
  with place_attachment_placed [OF a] have "placed_by_policy H a r"
    by (rule placed_later)
  with new have "rs = acc @ (r # new) \<and> list_all2 (placed_by_policy H) (a # atts) (r # new)"
    by simp
  then show ?case by blast
qed

lemma download_try_found:
  assumes "download_try E p idType mb ident h = (Resolved r, H)" and "r_found r"
  shows "\<exists>u h1 raw h2 mail matching h3.
      r_uid r = Some (string_of_nat u)
    \<and> fetchRawByUid E u h1 = (Resolved raw, h2)
    \<and> simpleParser E raw = Inr mail
    \<and> filter_attachments E p (m_attachments mail) h2 = (matching, h3)
    \<and> list_all2 (placed_by_policy H) matching (r_attachments r)"
proof -
  from assms(1) obtain uid0 h1 where
    k1: "(case truthy_uid uid0 of
            None \<Rightarrow>
              (Resolved \<lparr>r_id = ident, r_idType = idType, r_mailbox = mb, r_found = False,
                 r_uid = None, r_error = None, r_attachments = []\<rparr>, h1)
          | Some u \<Rightarrow>
              await (fetchRawByUid E u h1)
                (\<lambda>rawBuffer h2.
                   case simpleParser E rawBuffer of
                     Inl e \<Rightarrow> (Rejected e, h2)
                   | Inr parsedMail \<Rightarrow>
                       (case filter_attachments E p (m_attachments parsedMail) h2 of
                          (matching, h3) \<Rightarrow>
                            await (place_attachments E u matching [] h3)
                              (\<lambda>processed h4.
                                 (Resolved \<lparr>r_id = ident, r_idType = idType, r_mailbox = mb,
                                    r_found = True, r_uid = Some (string_of_nat u),
                                    r_error = None, r_attachments = processed\<rparr>, h4)))))
         = (Resolved r, H)"
    unfolding download_try_def by (blast dest: await_Resolved)
  with assms(2) obtain u where u: "truthy_uid uid0 = Some u"
    by (cases "truthy_uid uid0") auto
  with k1 obtain raw h2 where f: "fetchRawByUid E u h1 = (Resolved raw, h2)"
    and k2: "(case simpleParser E raw of
                Inl e \<Rightarrow> (Rejected e, h2)
              | Inr parsedMail \<Rightarrow>
                  (case filter_attachments E p (m_attachments parsedMail) h2 of
                     (matching, h3) \<Rightarrow>
                       await (place_attachments E u matching [] h3)
                         (\<lambda>processed h4.
                            (Resolved \<lparr>r_id = ident, r_idType = idType, r_mailbox = mb,
                               r_found = True, r_uid = Some (string_of_nat u),
                               r_error = None, r_attachments = processed\<rparr>, h4))))
         = (Resolved r, H)"
    by (auto dest: await_Resolved)
  then obtain mail where m: "simpleParser E raw = Inr mail"
    by (cases "simpleParser E raw") auto
  obtain matching h3 where
    fl: "filter_attachments E p (m_attachments mail) h2 = (matching, h3)"
    by (cases "filter_attachments E p (m_attachments mail) h2")
  with k2 m obtain processed where
    pl: "place_attachments E u matching [] h3 = (Resolved processed, H)"
    and r: "r = \<lparr>r_id = ident, r_idType = idType, r_mailbox = mb,
                 r_found = True, r_uid = Some (string_of_nat u),
                 r_error = None, r_attachments = processed\<rparr>"
    by (auto dest!: await_Resolved)
  from place_attachments_placed [OF pl]
  have "list_all2 (placed_by_policy H) matching processed" by simp
  with f m fl r show ?thesis by (simp, blast)
qed

lemma download_entry_found:
  assumes "download_entry E p idType mb ident h = (Resolved r, H)" and "r_found r"
  shows "\<exists>u h1 raw h2 mail matching h3.
      r_uid r = Some (string_of_nat u)
    \<and> fetchRawByUid E u h1 = (Resolved raw, h2)
    \<and> simpleParser E raw = Inr mail
    \<and> filter_attachments E p (m_attachments mail) h2 = (matching, h3)
    \<and> list_all2 (placed_by_policy H) matching (r_attachments r)"
proof -
  from assms have "download_try E p idType mb ident h = (Resolved r, H)"
    by (cases "download_try E p idType mb ident h")
      (auto simp: download_entry_def split: outcome.splits)
  from download_try_found [OF this assms(2)] show ?thesis .
qed

lemma run_download_found:
  assumes "run_download E p idType mb ids acc h = (Resolved rs, H)"
    and "\<forall>r \<in> set acc. r_found r \<longrightarrow>
          (\<exists>u h1 raw h2 mail matching h3.
              r_uid r = Some (string_of_nat u)
            \<and> fetchRawByUid E u h1 = (Resolved raw, h2)
            \<and> simpleParser E raw = Inr mail
            \<and> filter_attachments E p (m_attachments mail) h2 = (matching, h3)
            \<and> list_all2 (placed_by_policy h) matching (r_attachments r))"
  shows "\<forall>r \<in> set rs. r_found r \<longrightarrow>
          (\<exists>u h1 raw h2 mail matching h3.
              r_uid r = Some (string_of_nat u)
            \<and> fetchRawByUid E u h1 = (Resolved raw, h2)
            \<and> simpleParser E raw = Inr mail
            \<and> filter_attachments E p (m_attachments mail) h2 = (matching, h3)
            \<and> list_all2 (placed_by_policy H) matching (r_attachments r))"
  using assms
proof (induction ids arbitrary: acc h)
  case Nil
  then show ?case by simp
next
  case (Cons ident ids)
  from Cons.prems(1) obtain r0 h0 where
    e: "download_entry E p idType mb ident h = (Resolved r0, h0)"
    and rest: "run_download E p idType mb ids (acc @ [r0]) h0 = (Resolved rs, H)"
    by (cases "download_entry E p idType mb ident h") (auto split: outcome.splits)
  have "extends_by (\<lambda>c. True) h (snd (download_entry E p idType mb ident h))"
    by (rule download_entry_extends) simp_all
  with e have grow: "extends_by (\<lambda>c. True) h h0" by simp
  have "\<forall>r \<in> set (acc @ [r0]). r_found r \<longrightarrow>
          (\<exists>u h1 raw h2 mail matching h3.
              r_uid r = Some (string_of_nat u)
            \<and> fetchRawByUid E u h1 = (Resolved raw, h2)
            \<and> simpleParser E raw = Inr mail
            \<and> filter_attachments E p (m_attachments mail) h2 = (matching, h3)
            \<and> list_all2 (placed_by_policy h0) matching (r_attachments r))"
  proof (intro ballI impI)
    fix r assume r: "r \<in> set (acc @ [r0])" and f: "r_found r"
    show "\<exists>u h1 raw h2 mail matching h3.
              r_uid r = Some (string_of_nat u)
            \<and> fetchRawByUid E u h1 = (Resolved raw, h2)
            \<and> simpleParser E raw = Inr mail
            \<and> filter_attachments E p (m_attachments mail) h2 = (matching, h3)
            \<and> list_all2 (placed_by_policy h0) matching (r_attachments r)"
    proof (cases "r = r0")
      case True
      with download_entry_found [OF e] f show ?thesis by simp
    next
      case False
      with r have "r \<in> set acc" by simp
      with Cons.prems(2) f obtain u h1 raw h2 mail matching h3 where
        "r_uid r = Some (string_of_nat u)"
        "fetchRawByUid E u h1 = (Resolved raw, h2)"
        "simpleParser E raw = Inr mail"
        "filter_attachments E p (m_attachments mail) h2 = (matching, h3)"
        "list_all2 (placed_by_policy h) matching (r_attachments r)"
        by blast
      with all_placed_later [OF _ grow] show ?thesis by blast
    qed
  qed
  from Cons.IH [OF rest this] show ?case .
qed

lemma downloadAttachments_found:
  assumes "downloadAttachments E messageIds idType flt mb h = (Resolved rs, H)"
    and "r \<in> set rs" and "r_found r"
  shows "\<exists>p u h1 raw h2 mail matching h3.
      buildAttachmentPredicate E flt = Inr p
    \<and> r_uid r = Some (string_of_nat u)
    \<and> fetchRawByUid E u h1 = (Resolved raw, h2)
    \<and> simpleParser E raw = Inr mail
    \<and> filter_attachments E p (m_attachments mail) h2 = (matching, h3)
    \<and> list_all2 (placed_by_policy H) matching (r_attachments r)"
proof -
  from assms(1) obtain p where p: "buildAttachmentPredicate E flt = Inr p"
    and s: "with_session E mb (run_download E p idType mb (normalizeMessageIds messageIds) []) h
        = (Resolved rs, H)"
    by (cases "buildAttachmentPredicate E flt") (auto simp: downloadAttachments_def Let_def)
  from s obtain H0 where
    run: "run_download E p idType mb (normalizeMessageIds messageIds) []
            (h @ [Connect] @ [OpenBox mb True]) = (Resolved rs, H0)"
    and H: "H = H0 @ [EndConnection]"
    by (cases "run_download E p idType mb (normalizeMessageIds messageIds) []
            (h @ [Connect] @ [OpenBox mb True])")
      (auto simp: with_session_def Let_def split: option.splits outcome.splits)
  from run_download_found [OF run] assms(2,3) obtain u h1 raw h2 mail matching h3 where
    f: "r_uid r = Some (string_of_nat u)"
       "fetchRawByUid E u h1 = (Resolved raw, h2)"
       "simpleParser E raw = Inr mail"
       "filter_attachments E p (m_attachments mail) h2 = (matching, h3)"
    and l: "list_all2 (placed_by_policy H0) matching (r_attachments r)"
    by auto
  have "extends_by (\<lambda>c. True) H0 H" using H by (simp add: extends_by_def)
  from all_placed_later [OF l this] p f show ?thesis by blast
qed


lemma decode_smileys:
  "utf8_decode 0 0 0x80 0xBF (concat (replicate n [0xF0, 0x9F, 0x98, 0x80]) @ rest)
     = replicate n 0x1F600 @ utf8_decode 0 0 0x80 0xBF rest"
  by (induction n) (simp_all add: lead_byte_def)

lemma length_concat_replicate: "length (concat (replicate n xs)) = n * length xs"
  by (induction n) simp_all

lemma smiley_code_points: "code_points smiley_text = replicate 500 0x1F600"
proof -
  have "map uint smiley_text = concat (replicate 500 [0xF0, 0x9F, 0x98, 0x80]) @ []"
    by (simp add: smiley_text_def map_concat)
  then show ?thesis
    unfolding code_points_def by (simp only: decode_smileys) simp
qed

lemma smiley_units: "length (toString_utf8 smiley_text) = 1000"
  by (simp add: toString_utf8_def smiley_code_points utf16_units_def length_concat_replicate)

lemma smiley_bytes: "length smiley_text = 2000"
  by (simp add: smiley_text_def length_concat_replicate)

text \<open>
  Claim C4, as the specification states it, measures the decoded text in characters.
  The code compares the \<open>length\<close> of the JavaScript string, which counts UTF-16 code
  units, two for every character from \<open>U+10000\<close> on. A plain-text attachment of 500
  such characters is of an eligible type and shorter than 1000 characters, so the
  specification has it inline; its text has 1000 code units, and the code writes it to a
  file.
\<close>

theorem astral_text_is_materialized_counterexample:
  "spec_inline smiley_attachment
   \<and> characters (a_content smiley_attachment) = 500
   \<and> place_attachment quiet_env 5 smiley_attachment []
     = (Resolved \<lparr>t_filename = Some ''smile.txt'', t_contentType = ''text/plain'',
          t_size = 2000, t_contentDisposition = None, t_contentId = None,
          t_savedTo = Some ''/tmp/000000000000-smile.txt'', t_inlineContent = None\<rparr>,
        [RandomBytes 6, WriteFile ''/tmp/000000000000-smile.txt'' smiley_text])"
proof -
  have c: "characters (a_content smiley_attachment) = 500"
    by (simp add: characters_def smiley_attachment_def smiley_code_points)
  have e: "eligible_family (declared_type smiley_attachment)"
    by (simp add: smiley_attachment_def declared_type_def or_else_def text_plain_eligible)
  have n: "\<not> shouldInlineTextAttachment ''text/plain'' smiley_text"
    by (simp add: shouldInline_iff smiley_units)
  have t: "toString_hex [0, 0, 0, 0, 0, 0] = ''000000000000''"
    by code_simp
  have s: "replace_separators ''smile.txt'' = ''smile.txt''"
    by code_simp
  have "place_attachment quiet_env 5 smiley_attachment []
     = (Resolved \<lparr>t_filename = Some ''smile.txt'', t_contentType = ''text/plain'',
          t_size = 2000, t_contentDisposition = None, t_contentId = None,
          t_savedTo = Some ''/tmp/000000000000-smile.txt'', t_inlineContent = None\<rparr>,
        [RandomBytes 6, WriteFile ''/tmp/000000000000-smile.txt'' smiley_text])"
    by (simp add: place_attachment_def smiley_attachment_def or_else_def or_undefined_def n
        writeAttachmentToTemp_def quiet_env_def t s await_def smiley_bytes Let_def)
  with c e show ?thesis by (simp add: spec_inline_def)
qed

text \<open>
  Claim C4, amended. The content of a matching attachment is placed inline exactly when
  its declared content type is of an eligible family and the text decoded from it as
  UTF-8 is shorter than 1000, the length being that of the JavaScript string, in UTF-16
  code units. In every record of a found message that \<open>downloadAttachments\<close> returns, the
  attachment results stand one for one, in order, for the matching attachments of the
  message fetched and decoded for that record, and each is placed by that rule: an
  attachment under the rule carries the decoded text and no path, any other carries no
  text and the path of a file to which its content was written during the operation.
  An inline placement makes no call. Any other placement draws a random token and
  writes the content to a file; when the write succeeds the result carries that path
  and no inline text, and when it fails the placement fails with the error of the
  write. So \<open>text/plain\<close> is inline exactly below 1000 code units, and
  \<open>application/pdf\<close> is never inline.
\<close>

theorem attachments_placed_inline_iff_small_text:
  "(shouldInlineTextAttachment ctype content
      \<longleftrightarrow> eligible_family ctype \<and> length (toString_utf8 content) < 1000)
   \<and> (\<forall>rs H. downloadAttachments E messageIds idType flt mb h = (Resolved rs, H) \<longrightarrow>
         (\<forall>r \<in> set rs. r_found r \<longrightarrow>
            (\<exists>p u' h1 raw h2 mail matching h3.
                buildAttachmentPredicate E flt = Inr p
              \<and> r_uid r = Some (string_of_nat u')
              \<and> fetchRawByUid E u' h1 = (Resolved raw, h2)
              \<and> simpleParser E raw = Inr mail
              \<and> filter_attachments E p (m_attachments mail) h2 = (matching, h3)
              \<and> list_all2 (placed_by_policy H) matching (r_attachments r))))
   \<and> (shouldInlineTextAttachment (declared_type a) (a_content a) \<longrightarrow>
        (\<exists>r. place_attachment E u a h = (Resolved r, h)
           \<and> t_inlineContent r = Some (toString_utf8 (a_content a)) \<and> t_savedTo r = None))
   \<and> (\<not> shouldInlineTextAttachment (declared_type a) (a_content a) \<longrightarrow>
        (\<exists>path. snd (place_attachment E u a h)
                  = h @ [RandomBytes 6, WriteFile path (a_content a)]
           \<and> (case on_writeFile E (h @ [RandomBytes 6, WriteFile path (a_content a)]) of
                None \<Rightarrow> (\<exists>r. fst (place_attachment E u a h) = Resolved r
                          \<and> t_savedTo r = Some path \<and> t_inlineContent r = None)
              | Some err \<Rightarrow> fst (place_attachment E u a h) = Rejected err)))
   \<and> (shouldInlineTextAttachment ''text/plain'' content
        \<longleftrightarrow> length (toString_utf8 content) < 1000)
   \<and> \<not> shouldInlineTextAttachment ''application/pdf'' content"
proof -
  have op: "\<forall>rs H. downloadAttachments E messageIds idType flt mb h = (Resolved rs, H) \<longrightarrow>
         (\<forall>r \<in> set rs. r_found r \<longrightarrow>
            (\<exists>p u' h1 raw h2 mail matching h3.
                buildAttachmentPredicate E flt = Inr p
              \<and> r_uid r = Some (string_of_nat u')
              \<and> fetchRawByUid E u' h1 = (Resolved raw, h2)
              \<and> simpleParser E raw = Inr mail
              \<and> filter_attachments E p (m_attachments mail) h2 = (matching, h3)
              \<and> list_all2 (placed_by_policy H) matching (r_attachments r)))"
    using downloadAttachments_found [of E messageIds idType flt mb h] by blast
  from op show ?thesis
    using shouldInline_iff place_inline [of a E u h] place_materialized [of a E u h]
      pdf_not_eligible text_plain_eligible
    by blast
qed

text \<open>The amended claim at a download of handle 5 from the sample mailbox: the record
  of the message holds two results, for the note and for the PDF in this order; the
  two-byte note is returned inline, the PDF was written to a temporary file and its
  path is returned.\<close>

theorem attachments_placed_inline_iff_small_text_witness:
  "(\<exists>r H. downloadAttachments mailbox_env (OneId ''5'') UidType None ''INBOX'' []
             = (Resolved [r], H)
       \<and> list_all2 (placed_by_policy H) [note_attachment, report_attachment] (r_attachments r)
       \<and> map t_inlineContent (r_attachments r) = [Some [104, 105], None]
       \<and> map t_savedTo (r_attachments r) = [None, Some ''/tmp/000000000000-report.pdf''])
   \<and> inline_by_policy note_attachment \<and> \<not> inline_by_policy report_attachment
   \<and> (\<exists>r. place_attachment mailbox_env 5 note_attachment [] = (Resolved r, [])
       \<and> t_inlineContent r = Some [104, 105] \<and> t_savedTo r = None)
   \<and> (\<exists>r path. place_attachment mailbox_env 5 report_attachment []
         = (Resolved r, [RandomBytes 6, WriteFile path [0x25, 0x50, 0x44, 0x46]])
       \<and> t_savedTo r = Some path \<and> t_inlineContent r = None)"
proof -
  let ?H = "[Connect, OpenBox ''INBOX'' True, Fetch 5 [] False False, RandomBytes 6,
      WriteFile ''/tmp/000000000000-report.pdf'' [0x25, 0x50, 0x44, 0x46], EndConnection]"
  let ?r = "\<lparr>r_id = ''5'', r_idType = UidType, r_mailbox = ''INBOX'', r_found = True,
      r_uid = Some ''5'', r_error = None,
      r_attachments =
        [\<lparr>t_filename = Some ''note.txt'', t_contentType = ''text/plain'', t_size = 2,
          t_contentDisposition = Some ''attachment'', t_contentId = None, t_savedTo = None,
          t_inlineContent = Some [104, 105]\<rparr>,
         \<lparr>t_filename = Some ''report.pdf'', t_contentType = ''application/pdf'', t_size = 4,
          t_contentDisposition = Some ''attachment'', t_contentId = None,
          t_savedTo = Some ''/tmp/000000000000-report.pdf'', t_inlineContent = None\<rparr>]\<rparr>"
  have d: "downloadAttachments mailbox_env (OneId ''5'') UidType None ''INBOX'' []
      = (Resolved [?r], ?H)"
    by code_simp
  note note_case = attachments_placed_inline_iff_small_text
    [of "''text/plain''" "[]" mailbox_env "OneId ''5''" UidType None "''INBOX''" "[]"
        note_attachment 5]
  note report_case = attachments_placed_inline_iff_small_text
    [of "''text/plain''" "[]" mailbox_env "OneId ''5''" UidType None "''INBOX''" "[]"
        report_attachment 5]
  from note_case [THEN conjunct2, THEN conjunct1, rule_format, OF d, of ?r]
  obtain p u' h1 raw h2 mail matching h3 where
    p: "buildAttachmentPredicate mailbox_env None = Inr p"
    and m: "simpleParser mailbox_env raw = Inr mail"
    and f: "filter_attachments mailbox_env p (m_attachments mail) h2 = (matching, h3)"
    and l: "list_all2 (placed_by_policy ?H) matching (r_attachments ?r)"
    by auto
  from p have "p = None" by (simp add: buildAttachmentPredicate_def)
  moreover from m have "mail = sample_mail" by (simp add: mailbox_env_def)
  ultimately have "(m_attachments sample_mail, h2) = (matching, h3)"
    using f by (simp only: filter_no_filter)
  then have "matching = [note_attachment, report_attachment]"
    by (simp add: sample_mail_def)
  with l have "list_all2 (placed_by_policy ?H) [note_attachment, report_attachment]
      (r_attachments ?r)"
    by simp
  with d have one: "\<exists>r H. downloadAttachments mailbox_env (OneId ''5'') UidType None ''INBOX'' []
             = (Resolved [r], H)
       \<and> list_all2 (placed_by_policy H) [note_attachment, report_attachment] (r_attachments r)
       \<and> map t_inlineContent (r_attachments r) = [Some [104, 105], None]
       \<and> map t_savedTo (r_attachments r) = [None, Some ''/tmp/000000000000-report.pdf'']"
    by simp
  have two: "inline_by_policy note_attachment \<and> \<not> inline_by_policy report_attachment"
    by code_simp
  have "shouldInlineTextAttachment (declared_type note_attachment) (a_content note_attachment)"
    by code_simp
  with note_case obtain r where
    "place_attachment mailbox_env 5 note_attachment [] = (Resolved r, [])"
    and "t_inlineContent r = Some (toString_utf8 (a_content note_attachment))"
    and "t_savedTo r = None"
    by blast
  moreover have "toString_utf8 (a_content note_attachment) = [104, 105]"
    by code_simp
  ultimately have three: "\<exists>r. place_attachment mailbox_env 5 note_attachment [] = (Resolved r, [])
       \<and> t_inlineContent r = Some [104, 105] \<and> t_savedTo r = None"
    by simp
  have "\<not> shouldInlineTextAttachment (declared_type report_attachment)
      (a_content report_attachment)"
    by code_simp
  with report_case obtain path where
    s: "snd (place_attachment mailbox_env 5 report_attachment [])
        = [] @ [RandomBytes 6, WriteFile path (a_content report_attachment)]"
    and w: "case on_writeFile mailbox_env
          ([] @ [RandomBytes 6, WriteFile path (a_content report_attachment)]) of
        None \<Rightarrow> (\<exists>r. fst (place_attachment mailbox_env 5 report_attachment []) = Resolved r
                  \<and> t_savedTo r = Some path \<and> t_inlineContent r = None)
      | Some err \<Rightarrow> fst (place_attachment mailbox_env 5 report_attachment []) = Rejected err"
    by blast
  have "on_writeFile mailbox_env
      ([] @ [RandomBytes 6, WriteFile path (a_content report_attachment)]) = None"
    by (simp add: mailbox_env_def quiet_env_def)
  with w obtain r where "fst (place_attachment mailbox_env 5 report_attachment []) = Resolved r"
    and "t_savedTo r = Some path" and "t_inlineContent r = None"
    by auto
  with s have four: "\<exists>r path. place_attachment mailbox_env 5 report_attachment []
         = (Resolved r, [RandomBytes 6, WriteFile path [0x25, 0x50, 0x44, 0x46]])
       \<and> t_savedTo r = Some path \<and> t_inlineContent r = None"
    by (auto simp: prod_eq_iff report_attachment_def)
  from one two three four show ?thesis by blast
qed

subsection \<open>A write that fails\<close>

lemma place_attachments_append:
  "place_attachments E u (xs @ ys) acc h =
     (case place_attachments E u xs acc h of
        (Resolved acc', h1) \<Rightarrow> place_attachments E u ys acc' h1
      | (Rejected e, h1) \<Rightarrow> (Rejected e, h1)
      | (Pending, h1) \<Rightarrow> (Pending, h1))"
proof (induction xs arbitrary: acc h)
  case Nil
  then show ?case by simp
next
  case (Cons x xs)
  then show ?case
    by (cases "place_attachment E u x h") (auto split: outcome.splits)
qed

lemma place_rejected_is_write_failure:
  assumes "place_attachment E u a h = (Rejected e, h')"
  shows "on_writeFile E h' = Some e \<and> (\<exists>path. h' = h @ [RandomBytes 6, WriteFile path (a_content a)])"
  using assms
  by (auto simp: place_attachment_def Let_def writeAttachmentToTemp_def await_def
      split: if_splits option.splits)

lemma download_try_write_failure:
  assumes "resolve_identifier E idType ident h = (Resolved uid0, h1)"
    and "truthy_uid uid0 = Some u"
    and "fetchRawByUid E u h1 = (Resolved raw, h2)"
    and "simpleParser E raw = Inr mail"
    and "filter_attachments E p (m_attachments mail) h2 = (before @ a # after, h3)"
    and "place_attachments E u before [] h3 = (Resolved placed, h4)"
    and "place_attachment E u a h4 = (Rejected e, h5)"
  shows "download_try E p idType mb ident h = (Rejected e, h5)"
proof -
  have "place_attachments E u (before @ a # after) [] h3 = (Rejected e, h5)"
    using assms(6,7) by (simp add: place_attachments_append)
  with assms(1-5) show ?thesis
    by (simp add: download_try_def await_def)
qed

text \<open>
  Claim C3, as the specification states it, has a failed write fail only the result of
  its attachment, the other attachments of the message still appearing in the record of
  the message. The loop over the attachments has no \<open>try\<close> of its own: the rejection
  leaves it and is caught by the \<open>catch\<close> of the identifier. In a mailbox whose message
  has a short note and a PDF, on a machine where writing fails, the note alone is placed
  inline without error, yet the record of the message holds no attachment at all.
\<close>

theorem write_failure_drops_sibling_attachments_counterexample:
  "fst (place_attachment full_disk_env 5 note_attachment [])
     = Resolved \<lparr>t_filename = Some ''note.txt'', t_contentType = ''text/plain'', t_size = 2,
         t_contentDisposition = Some ''attachment'', t_contentId = None, t_savedTo = None,
         t_inlineContent = Some [104, 105]\<rparr>
   \<and> download_entry full_disk_env None UidType ''INBOX'' ''5'' []
     = (Resolved \<lparr>r_id = ''5'', r_idType = UidType, r_mailbox = ''INBOX'', r_found = False,
          r_uid = None, r_error = Some ''ENOSPC'', r_attachments = []\<rparr>,
        [Fetch 5 [] False False, RandomBytes 6,
         WriteFile ''/tmp/000000000000-report.pdf'' [0x25, 0x50, 0x44, 0x46]])"
  by code_simp

text \<open>
  Claim C3, amended. When the message of an identifier was resolved, fetched and
  decoded, the attachments before \<open>a\<close> among the matching ones were placed, and the
  placement of \<open>a\<close> rejects with \<open>e\<close>, then that rejection is a failed write of the content
  of \<open>a\<close>; the record of the identifier is the failure record (\<open>found: false\<close>, no
  attachment, the message of \<open>e\<close> as its error); and the batch goes on with the next
  identifier, this record appended to the results.
\<close>

theorem write_failure_fails_the_message_not_the_batch:
  assumes "resolve_identifier E idType ident h = (Resolved uid0, h1)"
    and "truthy_uid uid0 = Some u"
    and "fetchRawByUid E u h1 = (Resolved raw, h2)"
    and "simpleParser E raw = Inr mail"
    and "filter_attachments E p (m_attachments mail) h2 = (before @ a # after, h3)"
    and "place_attachments E u before [] h3 = (Resolved placed, h4)"
    and "place_attachment E u a h4 = (Rejected e, h5)"
  shows "on_writeFile E h5 = Some e
    \<and> (\<exists>path. h5 = h4 @ [RandomBytes 6, WriteFile path (a_content a)])
    \<and> download_entry E p idType mb ident h = (Resolved (failure_record idType mb ident e), h5)
    \<and> run_download E p idType mb (ident # rest) results h
        = run_download E p idType mb rest (results @ [failure_record idType mb ident e]) h5"
proof -
  have t: "download_try E p idType mb ident h = (Rejected e, h5)"
    using assms by (rule download_try_write_failure)
  then have d: "download_entry E p idType mb ident h
      = (Resolved (failure_record idType mb ident e), h5)"
    by (simp add: download_entry_def failure_record_def)
  then have r: "run_download E p idType mb (ident # rest) results h
      = run_download E p idType mb rest (results @ [failure_record idType mb ident e]) h5"
    by simp
  from place_rejected_is_write_failure [OF assms(7)] d r show ?thesis by blast
qed

text \<open>The amended claim at the batch \<open>5\<close>, \<open>0\<close> on the machine where writing fails: the
  record of \<open>5\<close> is the failure record, and the batch returns it followed by the record of
  \<open>0\<close>.\<close>

theorem write_failure_fails_the_message_not_the_batch_witness:
  "download_entry full_disk_env None UidType ''INBOX'' ''5'' []
     = (Resolved (failure_record UidType ''INBOX'' ''5'' (Error ''ENOSPC'')),
        [Fetch 5 [] False False, RandomBytes 6,
         WriteFile ''/tmp/000000000000-report.pdf'' [0x25, 0x50, 0x44, 0x46]])
   \<and> fst (run_download full_disk_env None UidType ''INBOX'' [''5'', ''0''] [] [])
     = Resolved [failure_record UidType ''INBOX'' ''5'' (Error ''ENOSPC''),
         \<lparr>r_id = ''0'', r_idType = UidType, r_mailbox = ''INBOX'', r_found = False,
          r_uid = None, r_error = None, r_attachments = []\<rparr>]"
proof -
  let ?h1 = "[Fetch 5 [] False False]"
  let ?h2 = "[Fetch 5 [] False False, RandomBytes 6,
         WriteFile ''/tmp/000000000000-report.pdf'' [0x25, 0x50, 0x44, 0x46]]"
  have w1: "resolve_identifier full_disk_env UidType ''5'' [] = (Resolved (Some 5), [])"
    by code_simp
  have w2: "truthy_uid (Some 5) = Some 5"
    by code_simp
  have w3: "fetchRawByUid full_disk_env 5 [] = (Resolved [1], ?h1)"
    by code_simp
  have w4: "simpleParser full_disk_env [1] = Inr sample_mail"
    by code_simp
  have w5: "filter_attachments full_disk_env None (m_attachments sample_mail) ?h1
      = ([note_attachment] @ report_attachment # [], ?h1)"
    by code_simp
  have w6: "place_attachments full_disk_env 5 [note_attachment] [] ?h1
      = (Resolved [\<lparr>t_filename = Some ''note.txt'', t_contentType = ''text/plain'', t_size = 2,
           t_contentDisposition = Some ''attachment'', t_contentId = None, t_savedTo = None,
           t_inlineContent = Some [104, 105]\<rparr>], ?h1)"
    by code_simp
  have w7: "place_attachment full_disk_env 5 report_attachment ?h1
      = (Rejected (Error ''ENOSPC''), ?h2)"
    by code_simp
  note t = write_failure_fails_the_message_not_the_batch
    [OF w1 w2 w3 w4 w5 w6 w7, of "''INBOX''" "[''0'']" "[]"]
  from t have one: "download_entry full_disk_env None UidType ''INBOX'' ''5'' []
      = (Resolved (failure_record UidType ''INBOX'' ''5'' (Error ''ENOSPC'')), ?h2)"
    by simp
  from t have "run_download full_disk_env None UidType ''INBOX'' [''5'', ''0''] [] []
      = run_download full_disk_env None UidType ''INBOX'' [''0'']
          ([] @ [failure_record UidType ''INBOX'' ''5'' (Error ''ENOSPC'')]) ?h2"
    by simp
  moreover have "download_entry full_disk_env None UidType ''INBOX'' ''0'' ?h2
      = (Resolved \<lparr>r_id = ''0'', r_idType = UidType, r_mailbox = ''INBOX'', r_found = False,
          r_uid = None, r_error = None, r_attachments = []\<rparr>, ?h2)"
    by code_simp
  ultimately have two: "fst (run_download full_disk_env None UidType ''INBOX'' [''5'', ''0''] [] [])
     = Resolved [failure_record UidType ''INBOX'' ''5'' (Error ''ENOSPC''),
         \<lparr>r_id = ''0'', r_idType = UidType, r_mailbox = ''INBOX'', r_found = False,
          r_uid = None, r_error = None, r_attachments = []\<rparr>]"
    by simp
  from one two show ?thesis ..
qed

subsection \<open>Classification\<close>

lemma toLowerCase_empty [simp]: "toLowerCase s = [] \<longleftrightarrow> s = []"
  by (simp add: toLowerCase_def)

lemma or_undefined_lower:
  "or_undefined (map_option toLowerCase x) = map_option toLowerCase (or_undefined x)"
  by (cases x) (simp_all add: or_undefined_def)

lemma mime_matches_stem: "mime_matches ctype (toLowerCase m) = stem_type_listed ctype m"
proof (cases "endsWith (toLowerCase m) ''/*''")
  case True
  have "startsWith (toLowerCase m) (take (length m - 2) (toLowerCase m))"
    by (simp add: startsWith_def take_is_prefix)
  with True show ?thesis
    by (auto simp: mime_matches_def stem_type_listed_def slice_0_m2_def toLowerCase_def)
next
  case False
  then show ?thesis by (simp add: mime_matches_def stem_type_listed_def)
qed

lemma spec_listed_is_stem_listed:
  assumes "spec_type_listed ctype m"
  shows "stem_type_listed ctype m"
proof -
  have "take (length m - 2) (toLowerCase m) = take (length m - 2) (butlast (toLowerCase m))"
    by (simp add: butlast_conv_take toLowerCase_def min_def)
  then have "prefix (take (length m - 2) (toLowerCase m)) (butlast (toLowerCase m))"
    by (simp add: take_is_prefix)
  with assms show ?thesis
    by (auto simp: spec_type_listed_def stem_type_listed_def startsWith_def
        intro: prefix_order.trans)
qed

lemma built_closure:
  assumes "buildAttachmentPredicate E (Some f) = Inr p"
  shows "p = Some \<lparr>nameRegex = regex_of f,
       normalizedName = map_option toLowerCase (f_name f),
       normalizedContains = map_option toLowerCase (f_nameContains f),
       normalizedMimeTypes = (case f_mimeTypes f of None \<Rightarrow> [] | Some ms \<Rightarrow> map toLowerCase ms)\<rparr>"
  using assms
  by (auto simp: buildAttachmentPredicate_def compile_nameRegex_def regex_of_def Let_def
      split: sum.splits option.splits)

lemma mime_checks_built:
  "mime_checks \<lparr>nameRegex = rx, normalizedName = nn, normalizedContains = nc,
       normalizedMimeTypes = (case f_mimeTypes f of None \<Rightarrow> [] | Some ms \<Rightarrow> map toLowerCase ms)\<rparr> a
     = stem_type_matches f a"
  by (cases "f_mimeTypes f")
    (auto simp: mime_checks_def stem_type_matches_def lower_type_def list_ex_iff mime_matches_stem)

lemma predicate_decision:
  assumes "buildAttachmentPredicate E (Some f) = Inr p"
  shows "attachment_predicate E p a h =
     (name_matches f a \<and> contains_matches f a \<and> test_answer E f a h \<and> stem_type_matches f a,
      h @ test_calls f a)"
proof -
  note p = built_closure [OF assms]
  show ?thesis
    unfolding p attachment_predicate_def
    by (cases "or_undefined (f_name f)"; cases "or_undefined (f_nameContains f)";
        cases "regex_of f")
      (auto simp: filename_checks_def Let_def or_undefined_lower mime_checks_built
        name_matches_def contains_matches_def test_answer_def test_calls_def file_name_def
        split: bool.splits)
qed

lemma filter_subseq: "subseq (fst (filter_attachments E p atts h)) atts"
proof (induction atts arbitrary: h)
  case Nil
  then show ?case by simp
next
  case (Cons a atts)
  obtain keep h1 where a: "attachment_predicate E p a h = (keep, h1)"
    by (cases "attachment_predicate E p a h")
  obtain kept h2 where r: "filter_attachments E p atts h1 = (kept, h2)"
    by (cases "filter_attachments E p atts h1")
  from Cons.IH [of h1] r have "subseq kept atts" by simp
  then have "subseq kept (a # atts)" and "subseq (a # kept) (a # atts)"
    by (auto intro: list_emb_Cons)
  with a r show ?case by (cases keep) simp_all
qed

lemma kept_satisfies_stateless_constraints:
  assumes "buildAttachmentPredicate E (Some f) = Inr p"
    and "a \<in> set (fst (filter_attachments E p atts h))"
  shows "name_matches f a \<and> contains_matches f a \<and> stem_type_matches f a"
  using assms(2)
proof (induction atts arbitrary: h)
  case Nil
  then show ?case by simp
next
  case (Cons b atts)
  obtain kept h2 where
    r: "filter_attachments E p atts (h @ test_calls f b) = (kept, h2)"
    by (cases "filter_attachments E p atts (h @ test_calls f b)")
  from Cons.prems r predicate_decision [OF assms(1), of b h]
  have "a \<in> set kept
      \<or> a = b \<and> name_matches f b \<and> contains_matches f b \<and> stem_type_matches f b"
    by (auto split: if_splits)
  with Cons.IH [of "h @ test_calls f b"] r show ?case by auto
qed

lemma filter_without_regex:
  assumes "buildAttachmentPredicate E (Some f) = Inr p" and "regex_of f = None"
  shows "filter_attachments E p atts h =
     (filter (\<lambda>a. name_matches f a \<and> contains_matches f a \<and> stem_type_matches f a) atts, h)"
proof (induction atts arbitrary: h)
  case Nil
  then show ?case by simp
next
  case (Cons a atts)
  have "attachment_predicate E p a h =
      (name_matches f a \<and> contains_matches f a \<and> stem_type_matches f a, h)"
    using predicate_decision [OF assms(1), of a h] assms(2)
    by (simp add: test_answer_def test_calls_def)
  with Cons show ?case by simp
qed

lemma filter_with_stateless_regex:
  assumes "buildAttachmentPredicate E (Some f) = Inr p"
    and "regex_of f = Some (src, flags)"
    and "\<And>h' n. on_test E (h' @ [RegExpTest src flags n]) = m n"
  shows "fst (filter_attachments E p atts h) =
     filter (\<lambda>a. name_matches f a \<and> contains_matches f a
               \<and> m (file_name a) \<and> stem_type_matches f a) atts"
proof (induction atts arbitrary: h)
  case Nil
  then show ?case by simp
next
  case (Cons a atts)
  have "test_answer E f a h \<longleftrightarrow> m (file_name a)"
    using assms(2,3) by (simp add: test_answer_def)
  then have "attachment_predicate E p a h =
      (name_matches f a \<and> contains_matches f a
         \<and> m (file_name a) \<and> stem_type_matches f a, h @ test_calls f a)"
    using predicate_decision [OF assms(1), of a h] by simp
  moreover obtain kept h2 where
    r: "filter_attachments E p atts (h @ test_calls f a) = (kept, h2)"
    by (cases "filter_attachments E p atts (h @ test_calls f a)")
  moreover from Cons.IH [of "h @ test_calls f a"] r
  have "kept = filter (\<lambda>a. name_matches f a \<and> contains_matches f a
               \<and> m (file_name a) \<and> stem_type_matches f a) atts"
    by simp
  ultimately show ?case by simp
qed

text \<open>
  What classification does for a filter that was built. It returns a subsequence of the
  attachments in their order, all of them when there is no filter. Every entry it
  returns satisfies the exact-name constraint, the substring constraint and the
  content-type constraint read by the stem, each one holding when it is not configured.
  When no pattern is configured the result is the list of the entries that satisfy
  these three constraints. When a pattern is configured and the answer of its test
  depends on the tested name alone, as it does for an expression without the flags \<open>g\<close>
  and \<open>y\<close>, the result is the list of the entries that satisfy the three constraints and
  whose file name the pattern accepts. Every content type that a listed type admits in
  the wording of the specification is admitted by the stem.
\<close>

lemma classification_without_stateful_pattern:
  assumes "buildAttachmentPredicate E flt = Inr p"
  shows "subseq (fst (filter_attachments E p atts h)) atts
    \<and> (flt = None \<longrightarrow> filter_attachments E p atts h = (atts, h))
    \<and> (\<forall>f. flt = Some f \<longrightarrow>
          (\<forall>a \<in> set (fst (filter_attachments E p atts h)).
              name_matches f a \<and> contains_matches f a \<and> stem_type_matches f a)
          \<and> (regex_of f = None \<longrightarrow>
               filter_attachments E p atts h
                 = (filter (\<lambda>a. name_matches f a \<and> contains_matches f a
                              \<and> stem_type_matches f a) atts, h))
          \<and> (\<forall>src flags m. regex_of f = Some (src, flags)
                  \<and> (\<forall>h' n. on_test E (h' @ [RegExpTest src flags n]) = m n) \<longrightarrow>
                fst (filter_attachments E p atts h)
                  = filter (\<lambda>a. name_matches f a \<and> contains_matches f a
                              \<and> m (file_name a) \<and> stem_type_matches f a) atts))
    \<and> (\<forall>ctype listed. spec_type_listed ctype listed \<longrightarrow> stem_type_listed ctype listed)"
proof -
  have c1: "subseq (fst (filter_attachments E p atts h)) atts"
    by (rule filter_subseq)
  have c2: "flt = None \<longrightarrow> filter_attachments E p atts h = (atts, h)"
    using assms by (auto simp: buildAttachmentPredicate_def filter_no_filter)
  have c3: "\<forall>f. flt = Some f \<longrightarrow>
      (\<forall>a \<in> set (fst (filter_attachments E p atts h)).
          name_matches f a \<and> contains_matches f a \<and> stem_type_matches f a)"
  proof (intro allI impI ballI)
    fix f a assume "flt = Some f" and a: "a \<in> set (fst (filter_attachments E p atts h))"
    with assms have "buildAttachmentPredicate E (Some f) = Inr p" by simp
    from kept_satisfies_stateless_constraints [OF this a]
    show "name_matches f a \<and> contains_matches f a \<and> stem_type_matches f a" .
  qed
  have c4: "\<forall>f. flt = Some f \<longrightarrow> regex_of f = None \<longrightarrow>
      filter_attachments E p atts h
        = (filter (\<lambda>a. name_matches f a \<and> contains_matches f a \<and> stem_type_matches f a)
             atts, h)"
  proof (intro allI impI)
    fix f assume "flt = Some f" and r: "regex_of f = None"
    with assms have "buildAttachmentPredicate E (Some f) = Inr p" by simp
    from filter_without_regex [OF this r, of atts h]
    show "filter_attachments E p atts h
        = (filter (\<lambda>a. name_matches f a \<and> contains_matches f a \<and> stem_type_matches f a)
             atts, h)" .
  qed
  have c5: "\<forall>f. flt = Some f \<longrightarrow>
      (\<forall>src flags m. regex_of f = Some (src, flags)
            \<and> (\<forall>h' n. on_test E (h' @ [RegExpTest src flags n]) = m n) \<longrightarrow>
         fst (filter_attachments E p atts h)
           = filter (\<lambda>a. name_matches f a \<and> contains_matches f a
                       \<and> m (file_name a) \<and> stem_type_matches f a) atts)"
  proof (intro allI impI)
    fix f src flags m assume "flt = Some f"
      and m: "regex_of f = Some (src, flags)
            \<and> (\<forall>h' n. on_test E (h' @ [RegExpTest src flags n]) = m n)"
    with assms have b: "buildAttachmentPredicate E (Some f) = Inr p" by simp
    from m have r: "regex_of f = Some (src, flags)"
      and "\<And>h' n. on_test E (h' @ [RegExpTest src flags n]) = m n" by simp_all
    from filter_with_stateless_regex [OF b r this(2), of atts h]
    show "fst (filter_attachments E p atts h)
           = filter (\<lambda>a. name_matches f a \<and> contains_matches f a
                       \<and> m (file_name a) \<and> stem_type_matches f a) atts" .
  qed
  have c6: "\<forall>ctype listed. spec_type_listed ctype listed \<longrightarrow> stem_type_listed ctype listed"
    using spec_listed_is_stem_listed by blast
  from c1 c2 c3 c4 c5 c6 show ?thesis by blast
qed

text \<open>
  Claim C7 fails on the code at two inputs. With the pattern \<open>a\<close> and the flag \<open>g\<close>, of
  three entries that are all named \<open>a\<close> the second is dropped: the predicate tests every
  entry with the one expression, which with that flag starts at the \<open>lastIndex\<close> the test
  before left, although a test of the name \<open>a\<close> from the start answers true, as it did
  for the first entry. And the filter \<open>["image/*"]\<close> keeps an entry of the type
  \<open>imagex/png\<close>, which does not have the prefix \<open>image/\<close> that stands before the
  wildcard: the code compares with the listed type cut by two characters.
\<close>

theorem classification_drops_entry_matching_global_pattern:
  "(case buildAttachmentPredicate global_a_env (Some global_a_filter) of
      Inr p \<Rightarrow>
        fst (filter_attachments global_a_env p [first_a, second_a, third_a] [])
          = [first_a, third_a]
    | Inl e \<Rightarrow> False)
   \<and> file_name second_a = file_name first_a
   \<and> regex_of global_a_filter = Some (''a'', ''g'')
   \<and> on_test global_a_env [RegExpTest ''a'' ''g'' (file_name second_a)]
   \<and> (case buildAttachmentPredicate quiet_env (Some images_filter) of
        Inr p \<Rightarrow> fst (filter_attachments quiet_env p [imagex_attachment] []) = [imagex_attachment]
      | Inl e \<Rightarrow> False)
   \<and> \<not> spec_type_matches images_filter imagex_attachment"
  by code_simp

end
